theory Spec2Isabelle
  imports Main
begin

section \<open>Strings as the program sees them\<close>

text \<open>
  The program is TypeScript. A string is modelled as a HOL \<open>string\<close>, one \<open>char\<close> per
  code unit, which covers the code units below 256. Case conversion is modelled on the
  ASCII letters: every table, column, alias and function name the parser produces comes
  from its Identifier rule \<open>[A-Za-z_][A-Za-z0-9_]*\<close>, so names are ASCII. Other
  characters are left unchanged by \<open>toLowerCase\<close> and \<open>toUpperCase\<close> below.
\<close>

definition is_upper :: "char \<Rightarrow> bool" where
  "is_upper c = ((65::nat) \<le> of_char c \<and> of_char c \<le> (90::nat))"

definition is_lower :: "char \<Rightarrow> bool" where
  "is_lower c = ((97::nat) \<le> of_char c \<and> of_char c \<le> (122::nat))"

definition is_digit :: "char \<Rightarrow> bool" where
  "is_digit c = ((48::nat) \<le> of_char c \<and> of_char c \<le> (57::nat))"

definition is_alnum :: "char \<Rightarrow> bool" where
  "is_alnum c = (is_upper c \<or> is_lower c \<or> is_digit c)"

text \<open>The regular-expression class \<open>\w\<close>: \<open>[A-Za-z0-9_]\<close>.\<close>

definition is_word_char :: "char \<Rightarrow> bool" where
  "is_word_char c = (is_alnum c \<or> c = CHR ''_'')"

text \<open>
  The regular-expression class \<open>\s\<close>, which is also what \<open>String.prototype.trim\<close>
  removes: tab, line feed, vertical tab, form feed, carriage return, space and the
  no-break space (the members of the class below code unit 256).
\<close>

definition is_js_space :: "char \<Rightarrow> bool" where
  "is_js_space c = (c = CHR 0x09 \<or> c = CHR 0x0A \<or> c = CHR 0x0B \<or> c = CHR 0x0C
     \<or> c = CHR 0x0D \<or> c = CHR 0x20 \<or> c = CHR 0xA0)"

definition lower_char :: "char \<Rightarrow> char" where
  "lower_char c = (if is_upper c then char_of (of_char c + (32::nat)) else c)"

definition upper_char :: "char \<Rightarrow> char" where
  "upper_char c = (if is_lower c then char_of (of_char c - (32::nat)) else c)"

definition toLowerCase :: "string \<Rightarrow> string" where
  "toLowerCase s = map lower_char s"

definition toUpperCase :: "string \<Rightarrow> string" where
  "toUpperCase s = map upper_char s"

definition trim :: "string \<Rightarrow> string" where
  "trim s = rev (dropWhile is_js_space (rev (dropWhile is_js_space s)))"

definition startsWith :: "string \<Rightarrow> string \<Rightarrow> bool" where
  "startsWith s p = (take (length p) s = p)"

definition endsWith :: "string \<Rightarrow> string \<Rightarrow> bool" where
  "endsWith s p = (length p \<le> length s \<and> drop (length s - length p) s = p)"

text \<open>\<open>Array.prototype.join\<close>.\<close>

fun join :: "string \<Rightarrow> string list \<Rightarrow> string" where
  "join sep [] = []"
| "join sep [x] = x"
| "join sep (x # y # ys) = x @ sep @ join sep (y # ys)"

text \<open>The decimal rendering of an array index inside a template literal.\<close>

definition digit_char :: "nat \<Rightarrow> char" where
  "digit_char d = char_of (48 + d)"

function showNat :: "nat \<Rightarrow> string" where
  "showNat n = (if n < 10 then [digit_char n] else showNat (n div 10) @ [digit_char (n mod 10)])"
  by pat_completeness auto
termination
  by (relation "measure id") auto

text \<open>The number that a string of decimal digits denotes.\<close>

definition digit_value :: "char \<Rightarrow> nat" where
  "digit_value c = of_char c - 48"

definition decimal_value :: "string \<Rightarrow> nat" where
  "decimal_value s = foldl (\<lambda>n c. 10 * n + digit_value c) 0 s"

text \<open>
  \<open>toCamelCase\<close> of \<open>types.ts\<close>:
  \<open>input.replace(/[_-]+([a-zA-Z0-9])/g, (_, c) => c.toUpperCase()).replace(/^[A-Z]/, (c) => c.toLowerCase())\<close>.
  A maximal run of \<open>_\<close> and \<open>-\<close> that is followed by a letter or digit is replaced by
  that character in upper case; a run followed by anything else (or by the end) matches
  at none of its positions and is kept.
\<close>

definition is_sep :: "char \<Rightarrow> bool" where
  "is_sep c = (c = CHR ''_'' \<or> c = CHR ''-'')"

function camel_replace :: "string \<Rightarrow> string" where
  "camel_replace [] = []"
| "camel_replace (c # cs) =
     (if is_sep c then
        (case dropWhile is_sep cs of
           [] \<Rightarrow> c # takeWhile is_sep cs
         | d # ds \<Rightarrow>
             if is_alnum d then upper_char d # camel_replace ds
             else (c # takeWhile is_sep cs) @ d # camel_replace ds)
      else c # camel_replace cs)"
  by pat_completeness auto
termination
proof (relation "measure length")
  show "wf (measure length)" by simp
next
  fix c :: char and cs d ds
  assume "dropWhile is_sep cs = d # ds"
  then have "length (d # ds) \<le> length cs"
    by (metis length_dropWhile_le)
  then show "(ds, c # cs) \<in> measure length" by simp
next
  fix c :: char and cs d ds
  assume "dropWhile is_sep cs = d # ds"
  then have "length (d # ds) \<le> length cs"
    by (metis length_dropWhile_le)
  then show "(ds, c # cs) \<in> measure length" by simp
next
  fix c :: char and cs
  show "(cs, c # cs) \<in> measure length" by simp
qed

definition lower_first :: "string \<Rightarrow> string" where
  "lower_first s = (case s of [] \<Rightarrow> [] | c # cs \<Rightarrow> (if is_upper c then lower_char c else c) # cs)"

definition toCamelCase :: "string \<Rightarrow> string" where
  "toCamelCase input = lower_first (camel_replace input)"

text \<open>\<open>toPascalCase\<close>: \<open>camel.charAt(0).toUpperCase() + camel.slice(1)\<close>.\<close>

definition toPascalCase :: "string \<Rightarrow> string" where
  "toPascalCase input =
     (let camel = toCamelCase input in toUpperCase (take 1 camel) @ drop 1 camel)"

section \<open>Data model (\<open>types.ts\<close>)\<close>

text \<open>
  \<open>TypeAst = { name, args }\<close> and \<open>TypeArg = TypeAst | number | string | EnumMember\<close>.
  Record fields carry a prefix naming their record (\<open>ty_\<close>, \<open>col_\<close>, \<open>tbl_\<close>, ...),
  because several of the source's interfaces share field names.
\<close>

text \<open>
  The \<open>number\<close> of a type argument and of an enum member. The parser makes it with
  \<open>Number(image)\<close> from a token of decimal digits, so it is a double that is a
  non-negative integer, or \<open>Infinity\<close>. The mapping never reads it.
\<close>

datatype js_number = JsInt int | JsInfinity

datatype TypeAst = TypeAst (ty_name: string) (ty_args: "TypeArg list")
  and TypeArg =
    ArgType TypeAst
  | ArgNumber js_number
  | ArgString string
  | ArgEnumMember (em_key: string) (em_value: js_number)

record ColumnAst =
  col_name :: string
  col_type :: TypeAst
  col_rawType :: string
  col_comment :: "string option"
  col_default :: "string option"

text \<open>An entry of \<open>mvSelect\<close> or of \<open>mvCte.columns\<close>: \<open>{ name, alias?, srcName?, func? }\<close>.\<close>

record SelectItem =
  si_name :: string
  si_alias :: "string option"
  si_srcName :: "string option"
  si_func :: "string option"

record MvCte =
  cte_name :: string
  cte_src :: "string option"
  cte_columns :: "SelectItem list"

record TableAst =
  tbl_name :: string
  tbl_columns :: "ColumnAst list"
  tbl_partitionBy :: "string option"
  tbl_orderBy :: "string option"
  tbl_mvFrom :: "string option"
  tbl_mvSelect :: "SelectItem list option"
  tbl_mvCte :: "MvCte option"

datatype Int64As = Int64AsBigint | Int64AsString
datatype DecimalAs = DecimalAsString | DecimalAsDecimalJs
datatype DatetimeAs = DatetimeAsString | DatetimeAsDate

text \<open>
  \<open>MappingOptions\<close>. The three representation options are union types of two string
  literals each, modelled as two-constructor datatypes. An absent \<open>failOnUnknown\<close> is
  \<open>False\<close>, an absent \<open>plugins\<close> is the empty list (the code treats both alike). A
  plugin's \<open>mapType(type, { options })\<close> is a function from the type node to an optional
  string.
\<close>

record MappingOptions =
  int64As :: Int64As
  decimal :: DecimalAs
  datetimeAs :: DatetimeAs
  camelCase :: bool
  failOnUnknown :: bool
  plugins :: "(TypeAst \<Rightarrow> string option) list"

record MappedColumn =
  mc_name :: string
  mc_tsType :: string
  mc_chType :: string
  mc_typeAst :: TypeAst
  mc_comment :: "string option"

record TableMeta =
  meta_partitionBy :: "string option"
  meta_orderBy :: "string option"

record MappedTable =
  interfaceName :: string
  mt_columns :: "MappedColumn list"
  mt_meta :: TableMeta

text \<open>Every \<open>throw\<close> and failed \<open>assert\<close> of the modelled code is a value of this type.\<close>

datatype error =
    DepthExceeded
  | EmptyTypeName
  | TooManyTypeArgs nat
  | UnknownType string
  | TooManyTables nat
  | EmptyTableName
  | TooManyColumns string nat
  | EmptyColumnName
  | EmptyLookupName
  | EmptyFunctionName
  | LexingFailed
  | ParseError string

section \<open>Helpers of \<open>ast-utils.ts\<close>\<close>

text \<open>\<open>xs[i]\<close> in JavaScript is \<open>undefined\<close> out of range.\<close>

definition nth_opt :: "'a list \<Rightarrow> nat \<Rightarrow> 'a option" where
  "nth_opt xs i = (if i < length xs then Some (xs ! i) else None)"

definition toTypeOrUnknown :: "TypeArg option \<Rightarrow> TypeAst" where
  "toTypeOrUnknown arg = (case arg of Some (ArgType t) \<Rightarrow> t | _ \<Rightarrow> TypeAst ''Unknown'' [])"

definition firstTypeArg :: "TypeAst \<Rightarrow> TypeAst" where
  "firstTypeArg t = toTypeOrUnknown (nth_opt (ty_args t) 0)"

definition secondTypeArg :: "TypeAst \<Rightarrow> TypeAst" where
  "secondTypeArg t = toTypeOrUnknown (nth_opt (ty_args t) 1)"

section \<open>Type mapping (\<open>mapping.ts\<close>)\<close>

definition MAX_TYPE_DEPTH :: nat where "MAX_TYPE_DEPTH = 20"
definition MAX_ENUM_KEYS :: nat where "MAX_ENUM_KEYS = 1000"
definition MAX_TUPLE_ELEMENTS :: nat where "MAX_TUPLE_ELEMENTS = 100"

text \<open>
  \<open>validateTypeAst\<close>: the name is not empty and there are at most
  \<open>MAX_TUPLE_ELEMENTS\<close> arguments. (That the name is a string and the arguments are an
  array holds by typing.) \<open>None\<close> means that no assertion failed.
  \<open>validateMappingOptions\<close> checks that the three representation options hold one of
  their two literals, which the datatypes above guarantee.
\<close>

definition validateTypeAst :: "TypeAst \<Rightarrow> error option" where
  "validateTypeAst t =
     (if ty_name t = [] then Some EmptyTypeName
      else if length (ty_args t) > MAX_TUPLE_ELEMENTS then Some (TooManyTypeArgs (length (ty_args t)))
      else None)"

text \<open>
  \<open>tryPluginMapping\<close>: the first of the first 50 plugins whose result is a string.
\<close>

fun first_plugin_result :: "(TypeAst \<Rightarrow> string option) list \<Rightarrow> TypeAst \<Rightarrow> string option" where
  "first_plugin_result [] t = None"
| "first_plugin_result (p # ps) t = (case p t of Some r \<Rightarrow> Some r | None \<Rightarrow> first_plugin_result ps t)"

definition tryPluginMapping :: "TypeAst \<Rightarrow> MappingOptions \<Rightarrow> string option" where
  "tryPluginMapping t opts =
     (if plugins opts = [] then None else first_plugin_result (take 50 (plugins opts)) t)"

text \<open>
  The plugin result as \<open>mapTypeAstToTs\<close> uses it: \<open>if (pluginResult) return
  pluginResult\<close> takes a non-empty string only.
\<close>

definition pluginResult :: "TypeAst \<Rightarrow> MappingOptions \<Rightarrow> string option" where
  "pluginResult t opts =
     (case tryPluginMapping t opts of
        Some (c # cs) \<Rightarrow> Some (c # cs)
      | _ \<Rightarrow> None)"

text \<open>\<open>extractEnumKeys\<close>: the non-empty keys of the enum members among the first
  \<open>MAX_ENUM_KEYS\<close> arguments.\<close>

fun enum_keys_of :: "TypeArg list \<Rightarrow> string list" where
  "enum_keys_of [] = []"
| "enum_keys_of (ArgEnumMember k v # as) = (if k \<noteq> [] then k # enum_keys_of as else enum_keys_of as)"
| "enum_keys_of (a # as) = enum_keys_of as"

definition extractEnumKeys :: "TypeArg list \<Rightarrow> string list" where
  "extractEnumKeys as = enum_keys_of (take (min (length as) MAX_ENUM_KEYS) as)"

text \<open>\<open>escapeStringLiteral\<close>: \<open>str.replace(/'/g, "\\'")\<close>.\<close>

definition escapeStringLiteral :: "string \<Rightarrow> string" where
  "escapeStringLiteral str = concat (map (\<lambda>c. if c = CHR 0x27 then [CHR 0x5C, CHR 0x27] else [c]) str)"

definition mapEnumType :: "TypeAst \<Rightarrow> string" where
  "mapEnumType t =
     (let keys = extractEnumKeys (ty_args t) in
      if keys = [] then ''string''
      else join '' | '' (map (\<lambda>key. [CHR 0x27] @ escapeStringLiteral key @ [CHR 0x27]) keys))"

definition mapDecimalType :: "MappingOptions \<Rightarrow> string" where
  "mapDecimalType opts = (if decimal opts = DecimalAsDecimalJs then ''Decimal'' else ''string'')"

definition mapBigIntType :: "MappingOptions \<Rightarrow> string" where
  "mapBigIntType opts = (if int64As opts = Int64AsBigint then ''bigint'' else ''string'')"

definition mapDateTimeType :: "MappingOptions \<Rightarrow> string" where
  "mapDateTimeType opts = (if datetimeAs opts = DatetimeAsDate then ''Date'' else ''string'')"

definition handleUnknownType :: "string \<Rightarrow> MappingOptions \<Rightarrow> error + string" where
  "handleUnknownType name opts = (if failOnUnknown opts then Inl (UnknownType name) else Inr ''unknown'')"

text \<open>The leaf cases of the \<open>switch\<close> in \<open>mapCoreType\<close>, in the source's order.\<close>

definition mapLeafType :: "TypeAst \<Rightarrow> MappingOptions \<Rightarrow> error + string" where
  "mapLeafType t opts =
     (let name = ty_name t in
      if name = ''Enum8'' \<or> name = ''Enum16'' then Inr (mapEnumType t)
      else if name = ''Decimal'' then Inr (mapDecimalType opts)
      else if name \<in> set [''Float32'', ''Float64'', ''Int8'', ''Int16'', ''Int32'',
                           ''UInt8'', ''UInt16'', ''UInt32''] then Inr ''number''
      else if name = ''Int64'' \<or> name = ''UInt64'' then Inr (mapBigIntType opts)
      else if name \<in> set [''String'', ''UUID'', ''FixedString'', ''IPv4'', ''IPv6''] then Inr ''string''
      else if name = ''Date'' \<or> name = ''DateTime'' \<or> name = ''DateTime64'' then Inr (mapDateTimeType opts)
      else handleUnknownType name opts)"

text \<open>A loop that throws at the first failing element.\<close>

fun sequence_err :: "(error + 'a) list \<Rightarrow> error + 'a list" where
  "sequence_err [] = Inr []"
| "sequence_err (Inl e # rs) = Inl e"
| "sequence_err (Inr x # rs) = (case sequence_err rs of Inl e \<Rightarrow> Inl e | Inr xs \<Rightarrow> Inr (x # xs))"

text \<open>
  \<open>mapTypeAstToTs(type, options, depth = 0)\<close>, with the bodies of \<open>mapCoreType\<close>,
  \<open>mapNullableType\<close>, \<open>mapLowCardinalityType\<close>, \<open>mapArrayType\<close>, \<open>mapTupleType\<close> and
  \<open>mapMapType\<close> in place (they call back into \<open>mapTypeAstToTs\<close> with \<open>depth + 1\<close>); they
  are given as definitions of their own below. The recursion terminates because the
  depth grows at every call and the function returns at once above \<open>MAX_TYPE_DEPTH\<close>.
\<close>

function mapTypeAstToTs :: "TypeAst \<Rightarrow> MappingOptions \<Rightarrow> nat \<Rightarrow> error + string" where
  "mapTypeAstToTs t opts depth =
     (if depth > MAX_TYPE_DEPTH then Inl DepthExceeded
      else case validateTypeAst t of
        Some e \<Rightarrow> Inl e
      | None \<Rightarrow>
         (case pluginResult t opts of
            Some result \<Rightarrow> Inr result
          | None \<Rightarrow>
             if ty_name t = ''Nullable'' then
               (case mapTypeAstToTs (firstTypeArg t) opts (depth + 1) of
                  Inl e \<Rightarrow> Inl e
                | Inr innerTs \<Rightarrow> Inr (innerTs @ '' | null''))
             else if ty_name t = ''LowCardinality'' then
               mapTypeAstToTs (firstTypeArg t) opts (depth + 1)
             else if ty_name t = ''Array'' then
               (case mapTypeAstToTs (firstTypeArg t) opts (depth + 1) of
                  Inl e \<Rightarrow> Inl e
                | Inr innerTs \<Rightarrow> Inr (innerTs @ ''[]''))
             else if ty_name t = ''Tuple'' then
               (case sequence_err
                       (map (\<lambda>(i, arg).
                               case mapTypeAstToTs (toTypeOrUnknown (Some arg)) opts (depth + 1) of
                                 Inl e \<Rightarrow> Inl e
                               | Inr argType \<Rightarrow> Inr (''_'' @ showNat i @ '': '' @ argType @ '';''))
                          (enumerate 0 (take (min (length (ty_args t)) MAX_TUPLE_ELEMENTS) (ty_args t)))) of
                  Inl e \<Rightarrow> Inl e
                | Inr parts \<Rightarrow> Inr (''{ '' @ join '' '' parts @ '' }''))
             else if ty_name t = ''Map'' then
               (case mapTypeAstToTs (secondTypeArg t) opts (depth + 1) of
                  Inl e \<Rightarrow> Inl e
                | Inr valueTs \<Rightarrow> Inr (''Record<string, '' @ valueTs @ ''>''))
             else mapLeafType t opts))"
  by pat_completeness auto
termination
  by (relation "measure (\<lambda>(t, opts, depth). Suc MAX_TYPE_DEPTH - depth)") auto

definition mapNullableType :: "TypeAst \<Rightarrow> MappingOptions \<Rightarrow> nat \<Rightarrow> error + string" where
  "mapNullableType t opts depth =
     (case mapTypeAstToTs (firstTypeArg t) opts (depth + 1) of
        Inl e \<Rightarrow> Inl e
      | Inr innerTs \<Rightarrow> Inr (innerTs @ '' | null''))"

definition mapLowCardinalityType :: "TypeAst \<Rightarrow> MappingOptions \<Rightarrow> nat \<Rightarrow> error + string" where
  "mapLowCardinalityType t opts depth = mapTypeAstToTs (firstTypeArg t) opts (depth + 1)"

definition mapArrayType :: "TypeAst \<Rightarrow> MappingOptions \<Rightarrow> nat \<Rightarrow> error + string" where
  "mapArrayType t opts depth =
     (case mapTypeAstToTs (firstTypeArg t) opts (depth + 1) of
        Inl e \<Rightarrow> Inl e
      | Inr innerTs \<Rightarrow> Inr (innerTs @ ''[]''))"

definition mapTupleType :: "TypeAst \<Rightarrow> MappingOptions \<Rightarrow> nat \<Rightarrow> error + string" where
  "mapTupleType t opts depth =
     (case sequence_err
             (map (\<lambda>(i, arg).
                     case mapTypeAstToTs (toTypeOrUnknown (Some arg)) opts (depth + 1) of
                       Inl e \<Rightarrow> Inl e
                     | Inr argType \<Rightarrow> Inr (''_'' @ showNat i @ '': '' @ argType @ '';''))
                (enumerate 0 (take (min (length (ty_args t)) MAX_TUPLE_ELEMENTS) (ty_args t)))) of
        Inl e \<Rightarrow> Inl e
      | Inr parts \<Rightarrow> Inr (''{ '' @ join '' '' parts @ '' }''))"

definition mapMapType :: "TypeAst \<Rightarrow> MappingOptions \<Rightarrow> nat \<Rightarrow> error + string" where
  "mapMapType t opts depth =
     (case mapTypeAstToTs (secondTypeArg t) opts (depth + 1) of
        Inl e \<Rightarrow> Inl e
      | Inr valueTs \<Rightarrow> Inr (''Record<string, '' @ valueTs @ ''>''))"

definition mapCoreType :: "TypeAst \<Rightarrow> MappingOptions \<Rightarrow> nat \<Rightarrow> error + string" where
  "mapCoreType t opts depth =
     (if ty_name t = ''Nullable'' then mapNullableType t opts depth
      else if ty_name t = ''LowCardinality'' then mapLowCardinalityType t opts depth
      else if ty_name t = ''Array'' then mapArrayType t opts depth
      else if ty_name t = ''Tuple'' then mapTupleType t opts depth
      else if ty_name t = ''Map'' then mapMapType t opts depth
      else mapLeafType t opts)"

section \<open>Materialized-view column resolution (\<open>mapping.ts\<close>)\<close>

definition MAX_TABLES :: nat where "MAX_TABLES = 1000"
definition MAX_COLUMNS_PER_TABLE :: nat where "MAX_COLUMNS_PER_TABLE = 10000"
definition MAX_SELECT_ITEMS :: nat where "MAX_SELECT_ITEMS = 1000"
definition MAX_CTE_COLUMNS :: nat where "MAX_CTE_COLUMNS = 1000"

text \<open>The value type of \<open>mvInfoMap\<close> and \<open>cteAliasMap\<close>: \<open>{ func?, src? }\<close>.\<close>

record FuncSrc =
  fs_func :: "string option"
  fs_src :: "string option"

record MappingContext =
  ctx_sourceTable :: "TableAst option"
  ctx_aliasMap :: "string \<rightharpoonup> string"
  ctx_mvInfoMap :: "string \<rightharpoonup> FuncSrc"
  ctx_cteAliasMap :: "string \<rightharpoonup> FuncSrc"
  ctx_cteSourceTable :: "TableAst option"

text \<open>JavaScript truthiness of an optional string: present and not empty.\<close>

definition truthy :: "string option \<Rightarrow> bool" where
  "truthy s = (case s of None \<Rightarrow> False | Some v \<Rightarrow> v \<noteq> [])"

text \<open>
  \<open>findTableByName\<close>: the first table with exactly this name, otherwise the first table
  whose name has the same \<open>toPascalCase\<close> form. The name must not be empty.
\<close>

definition findTableByName :: "TableAst list \<Rightarrow> string \<Rightarrow> error + TableAst option" where
  "findTableByName tables name =
     (if name = [] then Inl EmptyLookupName
      else case find (\<lambda>table. tbl_name table = name) tables of
        Some exactMatch \<Rightarrow> Inr (Some exactMatch)
      | None \<Rightarrow> Inr (find (\<lambda>table. toPascalCase (tbl_name table) = toPascalCase name) tables))"

text \<open>
  \<open>findColumnByName\<close>: the first column with exactly this name, otherwise the first
  column whose name has the same \<open>toCamelCase\<close> form.
\<close>

definition findColumnByName :: "TableAst \<Rightarrow> string \<Rightarrow> error + ColumnAst option" where
  "findColumnByName table name =
     (if name = [] then Inl EmptyLookupName
      else case find (\<lambda>column. col_name column = name) (tbl_columns table) of
        Some exactMatch \<Rightarrow> Inr (Some exactMatch)
      | None \<Rightarrow> Inr (find (\<lambda>column. toCamelCase (col_name column) = toCamelCase name) (tbl_columns table)))"

text \<open>
  \<open>buildAliasMap\<close>: for each of the first \<open>MAX_SELECT_ITEMS\<close> select items that has a
  non-empty alias, the alias is bound to \<open>item.srcName ?? item.name\<close>; a later item
  overwrites an earlier one with the same alias.
\<close>

definition select_items :: "TableAst \<Rightarrow> SelectItem list" where
  "select_items table =
     (case tbl_mvSelect table of
        None \<Rightarrow> []
      | Some items \<Rightarrow> take (min (length items) MAX_SELECT_ITEMS) items)"

definition buildAliasMap :: "TableAst \<Rightarrow> (string \<rightharpoonup> string)" where
  "buildAliasMap table =
     foldl (\<lambda>aliasMap item.
              case si_alias item of
                Some (c # cs) \<Rightarrow>
                  aliasMap(c # cs \<mapsto> (case si_srcName item of Some s \<Rightarrow> s | None \<Rightarrow> si_name item))
              | _ \<Rightarrow> aliasMap)
       Map.empty (select_items table)"

text \<open>
  \<open>buildMvInfoMap\<close>: the key is \<open>item.alias ?? item.name\<close>; a non-empty key is bound
  to \<open>{ func: item.func, src: item.srcName }\<close>.
\<close>

definition item_key :: "SelectItem \<Rightarrow> string" where
  "item_key item = (case si_alias item of Some a \<Rightarrow> a | None \<Rightarrow> si_name item)"

definition buildMvInfoMap :: "TableAst \<Rightarrow> (string \<rightharpoonup> FuncSrc)" where
  "buildMvInfoMap table =
     foldl (\<lambda>infoMap item.
              if item_key item \<noteq> []
              then infoMap(item_key item \<mapsto> \<lparr>fs_func = si_func item, fs_src = si_srcName item\<rparr>)
              else infoMap)
       Map.empty (select_items table)"

text \<open>
  \<open>buildCteAliasMap\<close>: over the first \<open>MAX_CTE_COLUMNS\<close> columns of \<open>mvCte\<close>; a
  non-empty key is bound to \<open>{ func: column.func, src: column.srcName ?? column.name }\<close>.
\<close>

definition buildCteAliasMap :: "TableAst \<Rightarrow> (string \<rightharpoonup> FuncSrc)" where
  "buildCteAliasMap table =
     (case tbl_mvCte table of
        None \<Rightarrow> Map.empty
      | Some cte \<Rightarrow>
          foldl (\<lambda>cteMap column.
                   if item_key column \<noteq> []
                   then cteMap(item_key column \<mapsto>
                          \<lparr>fs_func = si_func column,
                           fs_src = Some (case si_srcName column of Some s \<Rightarrow> s | None \<Rightarrow> si_name column)\<rparr>)
                   else cteMap)
            Map.empty
            (take (min (length (cte_columns cte)) MAX_CTE_COLUMNS) (cte_columns cte)))"

text \<open>
  \<open>createMappingContext\<close>. \<open>sourceTable\<close> is looked up when \<open>table.mvFrom\<close> is truthy,
  \<open>cteSourceTable\<close> when \<open>table.mvCte?.src\<close> is.
\<close>

definition lookup_table_opt :: "TableAst list \<Rightarrow> string option \<Rightarrow> error + TableAst option" where
  "lookup_table_opt allTables name =
     (case name of
        Some (c # cs) \<Rightarrow> findTableByName allTables (c # cs)
      | _ \<Rightarrow> Inr None)"

definition createMappingContext :: "TableAst \<Rightarrow> TableAst list \<Rightarrow> error + MappingContext" where
  "createMappingContext table allTables =
     (case lookup_table_opt allTables (tbl_mvFrom table) of
        Inl e \<Rightarrow> Inl e
      | Inr sourceTable \<Rightarrow>
         (case lookup_table_opt allTables (case tbl_mvCte table of None \<Rightarrow> None | Some cte \<Rightarrow> cte_src cte) of
            Inl e \<Rightarrow> Inl e
          | Inr cteSourceTable \<Rightarrow>
              Inr \<lparr>ctx_sourceTable = sourceTable,
                   ctx_aliasMap = buildAliasMap table,
                   ctx_mvInfoMap = buildMvInfoMap table,
                   ctx_cteAliasMap = buildCteAliasMap table,
                   ctx_cteSourceTable = cteSourceTable\<rparr>))"

text \<open>
  \<open>mapFuncToType\<close>: the heuristic table of conversion functions, on the lower-cased,
  trimmed name.
\<close>

definition mapFuncToType :: "string \<Rightarrow> error + TypeAst" where
  "mapFuncToType funcName =
     (if funcName = [] then Inl EmptyFunctionName
      else let normalizedFunc = trim (toLowerCase funcName) in
        if startsWith normalizedFunc ''tofloat'' then Inr (TypeAst ''Float64'' [])
        else if startsWith normalizedFunc ''toint'' then Inr (TypeAst ''Int64'' [])
        else if startsWith normalizedFunc ''touint'' then Inr (TypeAst ''UInt64'' [])
        else if startsWith normalizedFunc ''todecimal'' then Inr (TypeAst ''Decimal'' [])
        else if normalizedFunc = ''tostartofday'' then Inr (TypeAst ''DateTime'' [])
        else Inr (TypeAst ''Unknown'' []))"

definition isNumericAggregate :: "string \<Rightarrow> bool" where
  "isNumericAggregate funcName =
     (startsWith funcName ''sum'' \<or> startsWith funcName ''avg'' \<or> startsWith funcName ''count'')"

definition isStatePreservingAggregate :: "string \<Rightarrow> bool" where
  "isStatePreservingAggregate funcName =
     (startsWith funcName ''anylast'' \<or> startsWith funcName ''anystate'' \<or>
      startsWith funcName ''max'' \<or> startsWith funcName ''min'' \<or>
      startsWith funcName ''argmin'' \<or> startsWith funcName ''argmax'')"

text \<open>
  \<open>resolveAggReturnType(funcName, baseType)\<close>. An absent or empty function name returns
  the base type (\<open>if (!funcName) return baseType\<close>); the assertion that follows in the
  source, that the name is not empty, can therefore never fail and has no branch here.
\<close>

definition resolveAggReturnType :: "string option \<Rightarrow> TypeAst option \<Rightarrow> TypeAst option" where
  "resolveAggReturnType funcName baseType =
     (case funcName of
        Some (c # cs) \<Rightarrow>
          (let normalizedFunc = trim (toLowerCase (c # cs)) in
           if normalizedFunc = ''tostartofday'' then Some (TypeAst ''DateTime'' [])
           else if isNumericAggregate normalizedFunc then Some (TypeAst ''Float64'' [])
           else if isStatePreservingAggregate normalizedFunc then
             (case baseType of Some b \<Rightarrow> Some b | None \<Rightarrow> Some (TypeAst ''Float64'' []))
           else baseType)
      | _ \<Rightarrow> baseType)"

text \<open>\<open>resolveCTEBaseType\<close>: the function-based type first, then the source column.\<close>

definition cte_source_lookup :: "FuncSrc \<Rightarrow> MappingContext \<Rightarrow> error + TypeAst option" where
  "cte_source_lookup cteInfo context =
     (case (fs_src cteInfo, ctx_cteSourceTable context) of
        (Some (c # cs), Some cteSourceTable) \<Rightarrow>
          (case findColumnByName cteSourceTable (c # cs) of
             Inl e \<Rightarrow> Inl e
           | Inr sourceColumn \<Rightarrow> Inr (map_option col_type sourceColumn))
      | _ \<Rightarrow> Inr None)"

definition resolveCTEBaseType :: "FuncSrc \<Rightarrow> MappingContext \<Rightarrow> error + TypeAst option" where
  "resolveCTEBaseType cteInfo context =
     (case fs_func cteInfo of
        Some (c # cs) \<Rightarrow>
          (case mapFuncToType (c # cs) of
             Inl e \<Rightarrow> Inl e
           | Inr funcType \<Rightarrow>
               if ty_name funcType \<noteq> ''Unknown'' then Inr (Some funcType)
               else cte_source_lookup cteInfo context)
      | _ \<Rightarrow> cte_source_lookup cteInfo context)"

text \<open>
  \<open>resolveFromSourceTable\<close>: the source name is the alias map's entry for the column
  name when that entry is a non-empty string, else the column name itself. The result is
  the found column's \<open>type\<close> and \<open>rawType\<close>, or \<open>undefined\<close> (\<open>None\<close>).
\<close>

definition resolveFromSourceTable ::
  "ColumnAst \<Rightarrow> MappingContext \<Rightarrow> error + (TypeAst \<times> string) option" where
  "resolveFromSourceTable column context =
     (case ctx_sourceTable context of
        None \<Rightarrow> Inr None
      | Some sourceTable \<Rightarrow>
          (let sourceName =
                 (case ctx_aliasMap context (col_name column) of
                    Some (c # cs) \<Rightarrow> c # cs
                  | _ \<Rightarrow> col_name column) in
           case findColumnByName sourceTable sourceName of
             Inl e \<Rightarrow> Inl e
           | Inr (Some sourceColumn) \<Rightarrow> Inr (Some (col_type sourceColumn, col_rawType sourceColumn))
           | Inr None \<Rightarrow> Inr None))"

text \<open>
  The base type inside \<open>resolveFromCTE\<close>: \<open>cteInfo\<close> is the named sub-query's entry
  for \<open>mvInfo.src\<close> when that is truthy, and \<open>baseType\<close> is
  \<open>resolveCTEBaseType(cteInfo, context)\<close> when there is such an entry.
\<close>

definition mv_base_type :: "FuncSrc \<Rightarrow> MappingContext \<Rightarrow> error + TypeAst option" where
  "mv_base_type mvInfo context =
     (case (case fs_src mvInfo of
              Some (c # cs) \<Rightarrow> ctx_cteAliasMap context (c # cs)
            | _ \<Rightarrow> None) of
        Some cteInfo \<Rightarrow> resolveCTEBaseType cteInfo context
      | None \<Rightarrow> Inr None)"

text \<open>\<open>resolveFromCTE\<close>.\<close>

definition resolveFromCTE ::
  "ColumnAst \<Rightarrow> MappingContext \<Rightarrow> error + (TypeAst \<times> string) option" where
  "resolveFromCTE column context =
     (case ctx_mvInfoMap context (col_name column) of
        None \<Rightarrow> Inr (Some (TypeAst ''String'' [], ''String''))
      | Some mvInfo \<Rightarrow>
          (case mv_base_type mvInfo context of
             Inl e \<Rightarrow> Inl e
           | Inr baseType \<Rightarrow>
              (case resolveAggReturnType (fs_func mvInfo) baseType of
                 Some resolvedType \<Rightarrow> Inr (Some (resolvedType, ty_name resolvedType))
               | None \<Rightarrow>
                   if \<not> truthy (fs_func mvInfo) then Inr (Some (TypeAst ''String'' [], ''String''))
                   else Inr None)))"

definition resolveUnknownType ::
  "ColumnAst \<Rightarrow> MappingContext \<Rightarrow> error + (TypeAst \<times> string) option" where
  "resolveUnknownType column context =
     (if ctx_sourceTable context \<noteq> None then resolveFromSourceTable column context
      else resolveFromCTE column context)"

text \<open>
  The first half of \<open>mapSingleColumn\<close>: the type and raw type after the attempt to
  resolve a placeholder. An \<open>undefined\<close> result of \<open>resolveUnknownType\<close> leaves both as
  they were (\<open>if (resolved) { ... }\<close>).
\<close>

definition resolve_column :: "ColumnAst \<Rightarrow> MappingContext \<Rightarrow> error + (TypeAst \<times> string)" where
  "resolve_column column context =
     (if ty_name (col_type column) = ''Unknown'' then
        (case resolveUnknownType column context of
           Inl e \<Rightarrow> Inl e
         | Inr (Some resolved) \<Rightarrow> Inr resolved
         | Inr None \<Rightarrow> Inr (col_type column, col_rawType column))
      else Inr (col_type column, col_rawType column))"

definition mapSingleColumn ::
  "ColumnAst \<Rightarrow> MappingContext \<Rightarrow> MappingOptions \<Rightarrow> error + MappedColumn" where
  "mapSingleColumn column context opts =
     (case resolve_column column context of
        Inl e \<Rightarrow> Inl e
      | Inr (resolvedType, rawType) \<Rightarrow>
         (case mapTypeAstToTs resolvedType opts 0 of
            Inl e \<Rightarrow> Inl e
          | Inr tsType \<Rightarrow>
              Inr \<lparr>mc_name = (if camelCase opts then toCamelCase (col_name column) else col_name column),
                   mc_tsType = tsType,
                   mc_chType = trim rawType,
                   mc_typeAst = resolvedType,
                   mc_comment = col_comment column\<rparr>))"

definition validateColumn :: "ColumnAst \<Rightarrow> error option" where
  "validateColumn column = (if col_name column = [] then Some EmptyColumnName else None)"

definition mapTableColumns ::
  "TableAst \<Rightarrow> MappingContext \<Rightarrow> MappingOptions \<Rightarrow> error + MappedColumn list" where
  "mapTableColumns table context opts =
     sequence_err
       (map (\<lambda>column. case validateColumn column of
                         Some e \<Rightarrow> Inl e
                       | None \<Rightarrow> mapSingleColumn column context opts)
          (tbl_columns table))"

definition mapSingleTable :: "TableAst \<Rightarrow> TableAst list \<Rightarrow> MappingOptions \<Rightarrow> error + MappedTable" where
  "mapSingleTable table allTables opts =
     (case createMappingContext table allTables of
        Inl e \<Rightarrow> Inl e
      | Inr context \<Rightarrow>
         (case mapTableColumns table context opts of
            Inl e \<Rightarrow> Inl e
          | Inr columns \<Rightarrow>
              Inr \<lparr>interfaceName = toPascalCase (tbl_name table),
                   mt_columns = columns,
                   mt_meta = \<lparr>meta_partitionBy = tbl_partitionBy table,
                              meta_orderBy = tbl_orderBy table\<rparr>\<rparr>))"

definition validateTable :: "TableAst \<Rightarrow> error option" where
  "validateTable table =
     (if tbl_name table = [] then Some EmptyTableName
      else if length (tbl_columns table) > MAX_COLUMNS_PER_TABLE
      then Some (TooManyColumns (tbl_name table) (length (tbl_columns table)))
      else None)"

fun validateTableArray :: "TableAst list \<Rightarrow> error option" where
  "validateTableArray [] = None"
| "validateTableArray (table # tables) =
     (case validateTable table of Some e \<Rightarrow> Some e | None \<Rightarrow> validateTableArray tables)"

text \<open>The exported \<open>map(tables, options)\<close>.\<close>

definition map_tables :: "TableAst list \<Rightarrow> MappingOptions \<Rightarrow> error + MappedTable list" where
  "map_tables tables opts =
     (if length tables > MAX_TABLES then Inl (TooManyTables (length tables))
      else case validateTableArray tables of
        Some e \<Rightarrow> Inl e
      | None \<Rightarrow> sequence_err (map (\<lambda>table. mapSingleTable table tables opts) tables))"

section \<open>Interface properties (\<open>emitter.ts\<close>)\<close>




section \<open>JSON Schema (\<open>json-schema.ts\<close>)\<close>

text \<open>
  The schema is modelled as the object that \<open>emitJsonSchema\<close> builds and hands to
  \<open>JSON.stringify\<close>. An object is the list of its own properties in the order in which
  \<open>JSON.stringify\<close> writes them, which is the key order of a JavaScript object: first
  the keys that are array indices, in ascending numeric order, then the other keys in
  the order of their first assignment. An array index is the canonical decimal numeral
  (no leading zero) of a number below \<open>2 ^ 32 - 1\<close>.
\<close>

datatype json =
    JNull
  | JBool bool
  | JNumber int
  | JString string
  | JArray "json list"
  | JObject "(string \<times> json) list"

definition is_array_index :: "string \<Rightarrow> bool" where
  "is_array_index k =
     (k \<noteq> [] \<and> list_all is_digit k \<and> (length k = 1 \<or> hd k \<noteq> CHR ''0'') \<and>
      decimal_value k < 4294967295)"

text \<open>
  \<open>obj_set props k v\<close> is the assignment \<open>props[k] = v\<close> of an object \<open>v\<close> on a plain
  object (a \<open>Record<string, unknown>\<close> made by \<open>{}\<close>). A key that is present keeps its
  place and takes the new value. A new key that is an array index goes before the
  first property whose key is a larger index or no index; any other new key goes to
  the end. The key \<open>__proto__\<close> is the accessor inherited from \<open>Object.prototype\<close>:
  the assignment sets the prototype of \<open>props\<close> and creates no property, so the object
  that \<open>JSON.stringify\<close> writes is unchanged.
\<close>

fun obj_replace :: "(string \<times> json) list \<Rightarrow> string \<Rightarrow> json \<Rightarrow> (string \<times> json) list" where
  "obj_replace [] k v = []"
| "obj_replace ((k', v') # kvs) k v = (if k' = k then (k, v) # kvs else (k', v') # obj_replace kvs k v)"

fun obj_insert_index :: "(string \<times> json) list \<Rightarrow> string \<Rightarrow> json \<Rightarrow> (string \<times> json) list" where
  "obj_insert_index [] k v = [(k, v)]"
| "obj_insert_index ((k', v') # kvs) k v =
     (if is_array_index k' \<and> decimal_value k' < decimal_value k
      then (k', v') # obj_insert_index kvs k v
      else (k, v) # (k', v') # kvs)"

definition obj_set :: "(string \<times> json) list \<Rightarrow> string \<Rightarrow> json \<Rightarrow> (string \<times> json) list" where
  "obj_set props k v =
     (if k = ''__proto__'' then props
      else if map_of props k \<noteq> None then obj_replace props k v
      else if is_array_index k then obj_insert_index props k v
      else props @ [(k, v)])"

definition obj_get :: "json \<Rightarrow> string \<Rightarrow> json option" where
  "obj_get j k = (case j of JObject kvs \<Rightarrow> map_of kvs k | _ \<Rightarrow> None)"

text \<open>
  \<open>/\bWORD\b/.test(s)\<close> for a word of letters: the word occurs in \<open>s\<close> with no word
  character directly before or after it.
\<close>

definition word_at :: "string \<Rightarrow> string \<Rightarrow> bool" where
  "word_at w s =
     (startsWith s w \<and> (case drop (length w) s of [] \<Rightarrow> True | d # ds \<Rightarrow> \<not> is_word_char d))"

fun contains_word_from :: "bool \<Rightarrow> string \<Rightarrow> string \<Rightarrow> bool" where
  "contains_word_from prev_word w [] = False"
| "contains_word_from prev_word w (c # cs) =
     ((\<not> prev_word \<and> word_at w (c # cs)) \<or> contains_word_from (is_word_char c) w cs)"

definition contains_word :: "string \<Rightarrow> string \<Rightarrow> bool" where
  "contains_word w s = contains_word_from False w s"

lemma size_first_arg [termination_simp]:
  "nth_opt as 0 = Some (ArgType t) \<Longrightarrow> size t < Suc (size_list size as)"
  by (cases as) (auto simp: nth_opt_def)

lemma size_second_arg [termination_simp]:
  "nth_opt as (Suc 0) = Some (ArgType t) \<Longrightarrow> size t < Suc (size_list size as)"
  by (cases as; cases "tl as") (auto simp: nth_opt_def)

lemma size_member_arg [termination_simp]:
  "ArgType t \<in> set as \<Longrightarrow> size t < Suc (size_list size as)"
  by (induction as) auto

text \<open>
  The measure of the recursions over a type tree that follow \<open>firstTypeArg\<close>,
  \<open>secondTypeArg\<close> and \<open>toTypeOrUnknown\<close>: a missing or non-type argument is replaced
  by a fresh \<open>Unknown\<close> leaf, on which these recursions stop.
\<close>

definition is_wrapper :: "string \<Rightarrow> bool" where
  "is_wrapper name = (name \<in> set [''Nullable'', ''LowCardinality'', ''Array'', ''Tuple'', ''Map''])"

definition walk_measure :: "TypeAst \<Rightarrow> nat" where
  "walk_measure t = 2 * size t + (if is_wrapper (ty_name t) then 1 else 0)"

lemma walk_measure_first [termination_simp]:
  "is_wrapper (ty_name t) \<Longrightarrow> walk_measure (firstTypeArg t) < walk_measure t"
  by (cases t; cases "ty_args t"; cases "hd (ty_args t)")
     (auto simp: walk_measure_def firstTypeArg_def toTypeOrUnknown_def nth_opt_def is_wrapper_def)

lemma walk_measure_second [termination_simp]:
  assumes w: "is_wrapper (ty_name t)"
  shows "walk_measure (secondTypeArg t) < walk_measure t"
proof (cases t)
  case (TypeAst n as)
  show ?thesis
  proof (cases "nth_opt as (Suc 0)")
    case None
    with TypeAst w show ?thesis
      by (auto simp: walk_measure_def secondTypeArg_def toTypeOrUnknown_def is_wrapper_def)
  next
    case (Some a)
    show ?thesis
    proof (cases a)
      case (ArgType u)
      with Some have "size u < Suc (size_list size as)"
        by (simp add: size_second_arg)
      with TypeAst Some ArgType w show ?thesis
        by (auto simp: walk_measure_def secondTypeArg_def toTypeOrUnknown_def is_wrapper_def)
    qed (use TypeAst Some w in
          \<open>auto simp: walk_measure_def secondTypeArg_def toTypeOrUnknown_def is_wrapper_def\<close>)
  qed
qed

lemma walk_measure_member [termination_simp]:
  "is_wrapper (ty_name t) \<Longrightarrow> a \<in> set (ty_args t) \<Longrightarrow>
     walk_measure (toTypeOrUnknown (Some a)) < walk_measure t"
proof (cases t)
  case (TypeAst n as)
  assume w: "is_wrapper (ty_name t)" and m: "a \<in> set (ty_args t)"
  show ?thesis
  proof (cases a)
    case (ArgType u)
    with m TypeAst have "size u < Suc (size_list size as)"
      by (simp add: size_member_arg)
    with TypeAst ArgType w show ?thesis
      by (auto simp: walk_measure_def toTypeOrUnknown_def is_wrapper_def)
  qed (use TypeAst w in \<open>auto simp: walk_measure_def toTypeOrUnknown_def is_wrapper_def\<close>)
qed

text \<open>The enum keys as the JSON Schema renderer collects them: every member's key.\<close>

fun json_enum_keys :: "TypeArg list \<Rightarrow> string list" where
  "json_enum_keys [] = []"
| "json_enum_keys (ArgEnumMember k v # as) = k # json_enum_keys as"
| "json_enum_keys (a # as) = json_enum_keys as"

definition jsonSchemaForLeaf :: "TypeAst \<Rightarrow> string \<Rightarrow> json" where
  "jsonSchemaForLeaf t resolvedTs =
     (let name = ty_name t in
      if name = ''Enum8'' \<or> name = ''Enum16'' then
        (let keys = json_enum_keys (ty_args t) in
         if keys \<noteq> [] then JObject [(''type'', JString ''string''), (''enum'', JArray (map JString keys))]
         else JObject [(''type'', JString ''string'')])
      else if name = ''Decimal'' then JObject [(''type'', JString ''string'')]
      else if name \<in> set [''Float32'', ''Float64'', ''Int8'', ''Int16'', ''Int32'',
                           ''UInt8'', ''UInt16'', ''UInt32''] then JObject [(''type'', JString ''number'')]
      else if name = ''Int64'' \<or> name = ''UInt64'' then
        (if contains_word ''bigint'' resolvedTs then JObject [(''type'', JString ''integer'')]
         else JObject [(''type'', JString ''string'')])
      else if name \<in> set [''String'', ''UUID'', ''FixedString'', ''IPv4'', ''IPv6''] then
        JObject [(''type'', JString ''string'')]
      else if name = ''Date'' \<or> name = ''DateTime'' \<or> name = ''DateTime64'' then
        (if contains_word ''Date'' resolvedTs
         then JObject [(''type'', JString ''string''), (''format'', JString ''date-time'')]
         else JObject [(''type'', JString ''string'')])
      else JObject [])"

text \<open>
  \<open>jsonSchemaForType\<close>. The properties of a \<open>Tuple\<close> are assigned under the keys
  \<open>_0\<close>, \<open>_1\<close>, ...: distinct keys, none an array index and none \<open>__proto__\<close>, so the
  object has them in the order of the arguments.
\<close>

function jsonSchemaForType :: "TypeAst \<Rightarrow> string \<Rightarrow> json" where
  "jsonSchemaForType t resolvedTs =
     (if ty_name t = ''Nullable'' then
        JObject [(''anyOf'', JArray [jsonSchemaForType (firstTypeArg t) resolvedTs,
                                     JObject [(''type'', JString ''null'')]])]
      else if ty_name t = ''LowCardinality'' then jsonSchemaForType (firstTypeArg t) resolvedTs
      else if ty_name t = ''Array'' then
        JObject [(''type'', JString ''array''),
                 (''items'', jsonSchemaForType (firstTypeArg t) resolvedTs)]
      else if ty_name t = ''Tuple'' then
        JObject [(''type'', JString ''object''),
                 (''properties'',
                    JObject (map (\<lambda>(i, a). (''_'' @ showNat i, jsonSchemaForType (toTypeOrUnknown (Some a)) resolvedTs))
                               (enumerate 0 (ty_args t)))),
                 (''additionalProperties'', JBool False)]
      else if ty_name t = ''Map'' then
        JObject [(''type'', JString ''object''),
                 (''additionalProperties'', jsonSchemaForType (secondTypeArg t) resolvedTs)]
      else jsonSchemaForLeaf t resolvedTs)"
  by pat_completeness auto
termination
proof (relation "measure (\<lambda>(t, r). walk_measure t)", goal_cases)
  case 1
  show ?case by simp
next
  case (2 t r)
  then show ?case by (simp add: walk_measure_first is_wrapper_def)
next
  case (3 t r)
  then show ?case by (simp add: walk_measure_first is_wrapper_def)
next
  case (4 t r)
  then show ?case by (simp add: walk_measure_first is_wrapper_def)
next
  case (5 t r x xa y)
  then have "y \<in> set (ty_args t)"
    by (auto simp: in_set_enumerate_eq)
  with 5 show ?case by (simp add: walk_measure_member is_wrapper_def)
next
  case (6 t r)
  then show ?case by (simp add: walk_measure_second is_wrapper_def)
qed

text \<open>
  \<open>emitJsonSchema\<close>: one schema, for the first table (\<open>mapped[0]\<close>); the empty object
  when there is no table.
\<close>

definition emitJsonSchema :: "MappedTable list \<Rightarrow> json" where
  "emitJsonSchema mapped =
     (case mapped of
        [] \<Rightarrow> JObject []
      | table # others \<Rightarrow>
          (let schema =
                 [(''$schema'', JString ''https://json-schema.org/draft/2020-12/schema''),
                  (''title'', JString (interfaceName table)),
                  (''type'', JString ''object''),
                  (''properties'', JObject []),
                  (''additionalProperties'', JBool False),
                  (''required'', JArray (map (\<lambda>c. JString (mc_name c)) (mt_columns table)))];
               props = foldl (\<lambda>props col. obj_set props (mc_name col)
                                             (jsonSchemaForType (mc_typeAst col) (mc_tsType col)))
                         [] (mt_columns table)
           in JObject (obj_set schema ''properties'' (JObject props))))"

section \<open>Nesting depth of a type tree\<close>

text \<open>
  \<open>type_depth\<close> is the nesting depth of the whole tree: a type without type arguments
  has depth 0. \<open>walk_depth\<close> is the nesting depth of the part of the tree that
  \<open>mapTypeAstToTs\<close> enters: the first argument of \<open>Nullable\<close>, \<open>LowCardinality\<close> and
  \<open>Array\<close>, every argument of \<open>Tuple\<close>, the second argument of \<open>Map\<close>, where a
  missing or non-type argument counts as the \<open>Unknown\<close> leaf that \<open>toTypeOrUnknown\<close>
  puts in its place. \<open>nodes_ok\<close> says that every node of the tree passes
  \<open>validateTypeAst\<close>.
\<close>

primrec max_list :: "nat list \<Rightarrow> nat" where
  "max_list [] = 0"
| "max_list (x # xs) = max x (max_list xs)"

fun type_depth :: "TypeAst \<Rightarrow> nat" and arg_depth :: "TypeArg \<Rightarrow> nat" where
  "type_depth (TypeAst n as) = max_list (map arg_depth as)"
| "arg_depth (ArgType t) = Suc (type_depth t)"
| "arg_depth (ArgNumber v) = 0"
| "arg_depth (ArgString v) = 0"
| "arg_depth (ArgEnumMember k v) = 0"

fun nodes_ok :: "TypeAst \<Rightarrow> bool" and arg_ok :: "TypeArg \<Rightarrow> bool" where
  "nodes_ok (TypeAst n as) = (n \<noteq> [] \<and> length as \<le> MAX_TUPLE_ELEMENTS \<and> list_all arg_ok as)"
| "arg_ok (ArgType t) = nodes_ok t"
| "arg_ok (ArgNumber v) = True"
| "arg_ok (ArgString v) = True"
| "arg_ok (ArgEnumMember k v) = True"

function walk_depth :: "TypeAst \<Rightarrow> nat" where
  "walk_depth t =
     (if ty_name t = ''Nullable'' \<or> ty_name t = ''LowCardinality'' \<or> ty_name t = ''Array''
      then Suc (walk_depth (firstTypeArg t))
      else if ty_name t = ''Tuple''
      then max_list (map (\<lambda>a. Suc (walk_depth (toTypeOrUnknown (Some a)))) (ty_args t))
      else if ty_name t = ''Map'' then Suc (walk_depth (secondTypeArg t))
      else 0)"
  by pat_completeness auto
termination
proof (relation "measure walk_measure", goal_cases)
  case 1
  show ?case by simp
next
  case (2 t)
  then show ?case by (auto simp: walk_measure_first is_wrapper_def)
next
  case (3 t a)
  then show ?case by (simp add: walk_measure_member is_wrapper_def)
next
  case (4 t)
  then show ?case by (simp add: walk_measure_second is_wrapper_def)
qed


text \<open>A chain of \<open>k\<close> nested \<open>Array\<close> wrappers around a type, to build deep inputs.\<close>

primrec nest_array :: "nat \<Rightarrow> TypeAst \<Rightarrow> TypeAst" where
  "nest_array 0 t = t"
| "nest_array (Suc k) t = TypeAst ''Array'' [ArgType (nest_array k t)]"


text \<open>Options used in the concrete examples below.\<close>

definition sample_options :: MappingOptions where
  "sample_options = \<lparr>int64As = Int64AsBigint, decimal = DecimalAsString, datetimeAs = DatetimeAsString,
                      camelCase = True, failOnUnknown = False, plugins = []\<rparr>"

section \<open>Example inputs\<close>

text \<open>
  Scenario C as the parser hands it to \<open>map\<close>: the table \<open>base(id UInt64, name String,
  ts DateTime)\<close> and the materialized view \<open>mv AS SELECT id, name AS label, ts FROM base\<close>,
  whose columns carry the placeholder type.
\<close>

definition scenarioC_base :: TableAst where
  "scenarioC_base =
     \<lparr>tbl_name = ''base'',
      tbl_columns =
        [\<lparr>col_name = ''id'', col_type = TypeAst ''UInt64'' [], col_rawType = ''UInt64'',
          col_comment = None, col_default = None\<rparr>,
         \<lparr>col_name = ''name'', col_type = TypeAst ''String'' [], col_rawType = ''String'',
          col_comment = None, col_default = None\<rparr>,
         \<lparr>col_name = ''ts'', col_type = TypeAst ''DateTime'' [], col_rawType = ''DateTime'',
          col_comment = None, col_default = None\<rparr>],
      tbl_partitionBy = None, tbl_orderBy = None,
      tbl_mvFrom = None, tbl_mvSelect = None, tbl_mvCte = None\<rparr>"

definition scenarioC_mv :: TableAst where
  "scenarioC_mv =
     \<lparr>tbl_name = ''mv'',
      tbl_columns =
        map (\<lambda>n. \<lparr>col_name = n, col_type = TypeAst ''Unknown'' [], col_rawType = ''Unknown'',
                   col_comment = None, col_default = None\<rparr>)
          [''id'', ''label'', ''ts''],
      tbl_partitionBy = None, tbl_orderBy = None,
      tbl_mvFrom = Some ''base'',
      tbl_mvSelect = Some
        [\<lparr>si_name = ''id'', si_alias = None, si_srcName = Some ''id'', si_func = None\<rparr>,
         \<lparr>si_name = ''name'', si_alias = Some ''label'', si_srcName = Some ''name'', si_func = None\<rparr>,
         \<lparr>si_name = ''ts'', si_alias = None, si_srcName = Some ''ts'', si_func = None\<rparr>],
      tbl_mvCte = None\<rparr>"


text \<open>
  A source table whose column names are written \<open>user_id\<close> and \<open>Name\<close>, and a materialized
  view over it that selects them as \<open>userId\<close> and \<open>name\<close>.
\<close>

definition casing_base :: TableAst where
  "casing_base =
     \<lparr>tbl_name = ''base'',
      tbl_columns =
        [\<lparr>col_name = ''user_id'', col_type = TypeAst ''UInt64'' [], col_rawType = ''UInt64'',
          col_comment = None, col_default = None\<rparr>,
         \<lparr>col_name = ''Name'', col_type = TypeAst ''String'' [], col_rawType = ''String'',
          col_comment = None, col_default = None\<rparr>],
      tbl_partitionBy = None, tbl_orderBy = None,
      tbl_mvFrom = None, tbl_mvSelect = None, tbl_mvCte = None\<rparr>"

definition casing_mv :: TableAst where
  "casing_mv =
     \<lparr>tbl_name = ''mv'',
      tbl_columns =
        map (\<lambda>n. \<lparr>col_name = n, col_type = TypeAst ''Unknown'' [], col_rawType = ''Unknown'',
                   col_comment = None, col_default = None\<rparr>)
          [''userId'', ''name''],
      tbl_partitionBy = None, tbl_orderBy = None,
      tbl_mvFrom = Some ''base'',
      tbl_mvSelect = Some
        [\<lparr>si_name = ''userId'', si_alias = None, si_srcName = Some ''userId'', si_func = None\<rparr>,
         \<lparr>si_name = ''name'', si_alias = None, si_srcName = Some ''name'', si_func = None\<rparr>],
      tbl_mvCte = None\<rparr>"

definition casing_context :: MappingContext where
  "casing_context =
     \<lparr>ctx_sourceTable = Some casing_base,
      ctx_aliasMap = buildAliasMap casing_mv,
      ctx_mvInfoMap = buildMvInfoMap casing_mv,
      ctx_cteAliasMap = buildCteAliasMap casing_mv,
      ctx_cteSourceTable = None\<rparr>"

definition scenarioC_context :: MappingContext where
  "scenarioC_context =
     \<lparr>ctx_sourceTable = Some scenarioC_base,
      ctx_aliasMap = buildAliasMap scenarioC_mv,
      ctx_mvInfoMap = buildMvInfoMap scenarioC_mv,
      ctx_cteAliasMap = buildCteAliasMap scenarioC_mv,
      ctx_cteSourceTable = None\<rparr>"

definition unknown_column :: "string \<Rightarrow> ColumnAst" where
  "unknown_column n =
     \<lparr>col_name = n, col_type = TypeAst ''Unknown'' [], col_rawType = ''Unknown'',
      col_comment = None, col_default = None\<rparr>"

text \<open>
  A materialized view over \<open>base\<close> that selects a column \<open>total\<close> which \<open>base\<close> does
  not have.
\<close>

definition missing_column_mv :: TableAst where
  "missing_column_mv =
     \<lparr>tbl_name = ''mv2'',
      tbl_columns = [unknown_column ''total''],
      tbl_partitionBy = None, tbl_orderBy = None,
      tbl_mvFrom = Some ''base'',
      tbl_mvSelect = Some
        [\<lparr>si_name = ''total'', si_alias = None, si_srcName = Some ''total'', si_func = None\<rparr>],
      tbl_mvCte = None\<rparr>"

definition missing_column_context :: MappingContext where
  "missing_column_context =
     \<lparr>ctx_sourceTable = Some scenarioC_base,
      ctx_aliasMap = buildAliasMap missing_column_mv,
      ctx_mvInfoMap = buildMvInfoMap missing_column_mv,
      ctx_cteAliasMap = buildCteAliasMap missing_column_mv,
      ctx_cteSourceTable = None\<rparr>"

text \<open>
  Scenario D: a materialized view over the named sub-query \<open>trades\<close>, which selects from
  the table \<open>swaps\<close>. The final projection applies \<open>countIfState\<close>, \<open>sumState\<close>,
  \<open>anyLastState\<close> and \<open>maxState\<close>, and passes \<open>amount\<close> through without a function; the
  named sub-query derives \<open>profit_usdc\<close> and \<open>balance\<close> with \<open>toFloat64\<close>, \<open>cost\<close> with
  \<open>toDecimal64\<close>, and \<open>amount\<close> from the \<open>Float64\<close> column \<open>amount_a\<close>.
\<close>

definition scenarioD_mv :: TableAst where
  "scenarioD_mv =
     \<lparr>tbl_name = ''daily'',
      tbl_columns =
        map (\<lambda>n. \<lparr>col_name = n, col_type = TypeAst ''Unknown'' [], col_rawType = ''Unknown'',
                   col_comment = None, col_default = None\<rparr>)
          [''buy_count'', ''profit_usdc'', ''balance'', ''cost'', ''amount''],
      tbl_partitionBy = None, tbl_orderBy = None,
      tbl_mvFrom = Some ''trades'',
      tbl_mvSelect = Some
        [\<lparr>si_name = ''countIfState'', si_alias = Some ''buy_count'', si_srcName = Some ''amount'', si_func = Some ''countIfState''\<rparr>,
         \<lparr>si_name = ''sumState'', si_alias = Some ''profit_usdc'', si_srcName = Some ''profit_usdc'', si_func = Some ''sumState''\<rparr>,
         \<lparr>si_name = ''anyLastState'', si_alias = Some ''balance'', si_srcName = Some ''balance'', si_func = Some ''anyLastState''\<rparr>,
         \<lparr>si_name = ''maxState'', si_alias = Some ''cost'', si_srcName = Some ''cost'', si_func = Some ''maxState''\<rparr>,
         \<lparr>si_name = ''amount'', si_alias = None, si_srcName = Some ''amount'', si_func = None\<rparr>],
      tbl_mvCte = Some
        \<lparr>cte_name = ''trades'', cte_src = Some ''swaps'',
         cte_columns =
           [\<lparr>si_name = ''amount_a'', si_alias = Some ''amount'', si_srcName = Some ''amount_a'', si_func = None\<rparr>,
            \<lparr>si_name = ''toFloat64'', si_alias = Some ''profit_usdc'', si_srcName = Some ''token_a_profit_usdc'', si_func = Some ''toFloat64''\<rparr>,
            \<lparr>si_name = ''toFloat64'', si_alias = Some ''balance'', si_srcName = Some ''token_a_balance'', si_func = Some ''toFloat64''\<rparr>,
            \<lparr>si_name = ''toDecimal64'', si_alias = Some ''cost'', si_srcName = Some ''token_a_cost'', si_func = Some ''toDecimal64''\<rparr>]\<rparr>\<rparr>"

definition scenarioD_swaps :: TableAst where
  "scenarioD_swaps =
     \<lparr>tbl_name = ''swaps'',
      tbl_columns =
        [\<lparr>col_name = ''amount_a'', col_type = TypeAst ''Float64'' [], col_rawType = ''Float64'',
          col_comment = None, col_default = None\<rparr>],
      tbl_partitionBy = None, tbl_orderBy = None,
      tbl_mvFrom = None, tbl_mvSelect = None, tbl_mvCte = None\<rparr>"


definition scenarioD_context :: MappingContext where
  "scenarioD_context =
     \<lparr>ctx_sourceTable = None,
      ctx_aliasMap = buildAliasMap scenarioD_mv,
      ctx_mvInfoMap = buildMvInfoMap scenarioD_mv,
      ctx_cteAliasMap = buildCteAliasMap scenarioD_mv,
      ctx_cteSourceTable = Some scenarioD_swaps\<rparr>"

section \<open>Nullability and structural shape in the two renderings\<close>














definition mapped_or_empty :: "error + MappedTable list \<Rightarrow> MappedTable list" where
  "mapped_or_empty r = (case r of Inr ts \<Rightarrow> ts | Inl e \<Rightarrow> [])"










definition scenarioC_mapped :: "MappedTable list" where
  "scenarioC_mapped = mapped_or_empty (map_tables [scenarioC_base, scenarioC_mv] sample_options)"


section \<open>Statement splitting and filtering (\<open>index.ts\<close>)\<close>

text \<open>\<open>input.split(/;/)\<close>: the pieces between semicolons; the empty string gives one empty piece.\<close>

fun split_semi :: "string \<Rightarrow> string list" where
  "split_semi [] = [[]]"
| "split_semi (c # cs) =
     (if c = CHR '';'' then [] # split_semi cs
      else (case split_semi cs of
              [] \<Rightarrow> [[c]]
            | p # ps \<Rightarrow> (c # p) # ps))"

text \<open>\<open>input.split(/;/).map((s) => s.trim()).filter((s) => s.length > 0)\<close>.\<close>

definition statement_parts :: "string \<Rightarrow> string list" where
  "statement_parts input = filter (\<lambda>s. s \<noteq> []) (map trim (split_semi input))"

text \<open>
  The regular expressions of the filter. \<open>\s+\<close> before a literal that starts with a
  letter can only match the whole run of white space.
\<close>

definition strip_prefix :: "string \<Rightarrow> string \<Rightarrow> string option" where
  "strip_prefix p s = (if startsWith s p then Some (drop (length p) s) else None)"

definition strip_spaces1 :: "string \<Rightarrow> string option" where
  "strip_spaces1 s =
     (case s of
        [] \<Rightarrow> None
      | c # cs \<Rightarrow> if is_js_space c then Some (dropWhile is_js_space cs) else None)"

text \<open>\<open>/^create\s+materialized\s+view/.test(head)\<close>.\<close>

definition isMaterializedView :: "string \<Rightarrow> bool" where
  "isMaterializedView head =
     (case strip_prefix ''create'' head of
        None \<Rightarrow> False
      | Some r1 \<Rightarrow>
         (case strip_spaces1 r1 of
            None \<Rightarrow> False
          | Some r2 \<Rightarrow>
             (case strip_prefix ''materialized'' r2 of
                None \<Rightarrow> False
              | Some r3 \<Rightarrow>
                 (case strip_spaces1 r3 of
                    None \<Rightarrow> False
                  | Some r4 \<Rightarrow> startsWith r4 ''view''))))"

text \<open>\<open>/^create\s+view/.test(head)\<close>.\<close>

definition isRegularView :: "string \<Rightarrow> bool" where
  "isRegularView head =
     (case strip_prefix ''create'' head of
        None \<Rightarrow> False
      | Some r1 \<Rightarrow>
         (case strip_spaces1 r1 of
            None \<Rightarrow> False
          | Some r2 \<Rightarrow> startsWith r2 ''view''))"

text \<open>
  \<open>/(\s|\))KW\s+/.test(lower)\<close>: somewhere a white-space character or a closing
  parenthesis is followed by the keyword and at least one white-space character.
\<close>

fun has_routing_keyword :: "string \<Rightarrow> string \<Rightarrow> bool" where
  "has_routing_keyword kw [] = False"
| "has_routing_keyword kw (c # cs) =
     (((is_js_space c \<or> c = CHR '')'') \<and> startsWith cs kw \<and>
       (case drop (length kw) cs of [] \<Rightarrow> False | d # ds \<Rightarrow> is_js_space d))
      \<or> has_routing_keyword kw cs)"

definition isRoutingMaterializedView :: "string \<Rightarrow> bool" where
  "isRoutingMaterializedView statement =
     (let lower = toLowerCase statement in
      has_routing_keyword ''to'' lower \<or> has_routing_keyword ''for'' lower)"

text \<open>The body of the filter loop: whether the statement \<open>s\<close> is kept.\<close>

definition keepStatement :: "string \<Rightarrow> bool" where
  "keepStatement s =
     (let head = toLowerCase (take 200 s) in
      if isMaterializedView head \<and> isRoutingMaterializedView s then False
      else if isRegularView head then False
      else True)"

definition join_kept :: "string list \<Rightarrow> string" where
  "join_kept kept = (if kept \<noteq> [] then join [CHR '';'', CHR 0x0A] kept @ '';'' else [])"

definition filterStatements :: "string \<Rightarrow> string" where
  "filterStatements input = join_kept (filter keepStatement (statement_parts input))"

definition splitStatements :: "string \<Rightarrow> string list" where
  "splitStatements input = map (\<lambda>s. s @ '';'') (statement_parts input)"

section \<open>Tokenizer (\<open>tokens.ts\<close>)\<close>

datatype TokenType =
    TkLineComment | TkBlockComment | TkWhiteSpace
  | TkLParen | TkRParen | TkComma | TkDot | TkEq | TkSemi
  | TkCreate | TkTable | TkMaterialized | TkView | TkIf | TkNot | TkExists
  | TkComment | TkDefault | TkCodec | TkPartition | TkOrder | TkBy | TkEngine
  | TkAs | TkWith | TkSelect | TkFrom | TkTo | TkFor
  | TkStringLiteral | TkInteger | TkIdentifier | TkUnknown

record Token =
  tokenType :: TokenType
  tok_image :: string

text \<open>The token types declared with \<open>group: Lexer.SKIPPED\<close>.\<close>

definition skipped :: "TokenType \<Rightarrow> bool" where
  "skipped tt = (tt \<in> set [TkLineComment, TkBlockComment, TkWhiteSpace, TkSemi, TkUnknown])"

text \<open>
  Each pattern as a function from the character before the current offset (if any) and
  the text from the offset on to the length of its match at the offset.
\<close>

definition match_literal :: "string \<Rightarrow> char option \<Rightarrow> string \<Rightarrow> nat option" where
  "match_literal lit prev s = (if startsWith s lit then Some (length lit) else None)"

text \<open>\<open>/--[^\n]*/\<close>\<close>

definition match_LineComment :: "char option \<Rightarrow> string \<Rightarrow> nat option" where
  "match_LineComment prev s =
     (if startsWith s ''--'' then Some (2 + length (takeWhile (\<lambda>c. c \<noteq> CHR 0x0A) (drop 2 s))) else None)"

text \<open>\<open>/\/\*[\s\S]*?\*\//\<close>: up to the first \<open>*/\<close>.\<close>

fun find_block_end :: "string \<Rightarrow> nat option" where
  "find_block_end [] = None"
| "find_block_end [c] = None"
| "find_block_end (c # d # cs) =
     (if c = CHR ''*'' \<and> d = CHR ''/'' then Some 2 else map_option Suc (find_block_end (d # cs)))"

definition match_BlockComment :: "char option \<Rightarrow> string \<Rightarrow> nat option" where
  "match_BlockComment prev s =
     (if startsWith s ''/*'' then map_option (\<lambda>n. 2 + n) (find_block_end (drop 2 s)) else None)"

definition match_while :: "(char \<Rightarrow> bool) \<Rightarrow> char option \<Rightarrow> string \<Rightarrow> nat option" where
  "match_while p prev s = (let n = length (takeWhile p s) in if 0 < n then Some n else None)"

text \<open>\<open>/[ \t\n\r\f]+/\<close>\<close>

definition is_lexer_space :: "char \<Rightarrow> bool" where
  "is_lexer_space c = (c = CHR 0x20 \<or> c = CHR 0x09 \<or> c = CHR 0x0A \<or> c = CHR 0x0D \<or> c = CHR 0x0C)"

text \<open>
  \<open>/\bKEYWORD\b/i\<close>: no word character directly before, the keyword in any letter
  case (\<open>match_ci\<close>, the keyword being written in capitals), no word character
  directly after.
\<close>

fun match_ci :: "string \<Rightarrow> string \<Rightarrow> bool" where
  "match_ci [] s = True"
| "match_ci (k # ks) [] = False"
| "match_ci (k # ks) (c # cs) = (if upper_char c = k then match_ci ks cs else False)"

definition match_keyword :: "string \<Rightarrow> char option \<Rightarrow> string \<Rightarrow> nat option" where
  "match_keyword kw prev s =
     (if (case prev of None \<Rightarrow> False | Some p \<Rightarrow> is_word_char p) then None
      else if match_ci kw s then
        (case drop (length kw) s of
           [] \<Rightarrow> Some (length kw)
         | d # ds \<Rightarrow> if is_word_char d then None else Some (length kw))
      else None)"

text \<open>
  \<open>/'(?:[^'\\]|\\.)*'/\<close>: \<open>string_body\<close> is the length of the rest of the literal
  after the opening quote. A backslash takes the next character with it, which must
  not be a line terminator.
\<close>

definition is_line_terminator :: "char \<Rightarrow> bool" where
  "is_line_terminator c = (c = CHR 0x0A \<or> c = CHR 0x0D)"

fun string_body :: "string \<Rightarrow> nat option" where
  "string_body [] = None"
| "string_body (c # cs) =
     (if c = CHR 0x27 then Some 1
      else if c = CHR 0x5C then
        (case cs of
           [] \<Rightarrow> None
         | d # ds \<Rightarrow> if is_line_terminator d then None else map_option (\<lambda>n. n + 2) (string_body ds))
      else map_option Suc (string_body cs))"

definition match_StringLiteral :: "char option \<Rightarrow> string \<Rightarrow> nat option" where
  "match_StringLiteral prev s =
     (case s of
        [] \<Rightarrow> None
      | c # cs \<Rightarrow> if c = CHR 0x27 then map_option Suc (string_body cs) else None)"

text \<open>\<open>/[A-Za-z_][A-Za-z0-9_]*/\<close>\<close>

definition match_Identifier :: "char option \<Rightarrow> string \<Rightarrow> nat option" where
  "match_Identifier prev s =
     (case s of
        [] \<Rightarrow> None
      | c # cs \<Rightarrow>
          if is_upper c \<or> is_lower c \<or> c = CHR ''_''
          then Some (Suc (length (takeWhile is_word_char cs))) else None)"

text \<open>\<open>/[^\s]/\<close>: the catch-all for a single character that is not white space.\<close>

definition match_Unknown :: "char option \<Rightarrow> string \<Rightarrow> nat option" where
  "match_Unknown prev s =
     (case s of
        [] \<Rightarrow> None
      | c # cs \<Rightarrow> if \<not> is_js_space c then Some 1 else None)"

text \<open>The token types of \<open>ddlLexer\<close>, in its order.\<close>

definition ddlLexer :: "(TokenType \<times> (char option \<Rightarrow> string \<Rightarrow> nat option)) list" where
  "ddlLexer =
     [(TkLineComment, match_LineComment),
      (TkBlockComment, match_BlockComment),
      (TkWhiteSpace, match_while is_lexer_space),
      (TkLParen, match_literal ''(''),
      (TkRParen, match_literal '')''),
      (TkComma, match_literal '',''),
      (TkDot, match_literal ''.''),
      (TkEq, match_literal ''=''),
      (TkSemi, match_literal '';''),
      (TkCreate, match_keyword ''CREATE''),
      (TkTable, match_keyword ''TABLE''),
      (TkMaterialized, match_keyword ''MATERIALIZED''),
      (TkView, match_keyword ''VIEW''),
      (TkIf, match_keyword ''IF''),
      (TkNot, match_keyword ''NOT''),
      (TkExists, match_keyword ''EXISTS''),
      (TkComment, match_keyword ''COMMENT''),
      (TkDefault, match_keyword ''DEFAULT''),
      (TkCodec, match_keyword ''CODEC''),
      (TkPartition, match_keyword ''PARTITION''),
      (TkOrder, match_keyword ''ORDER''),
      (TkBy, match_keyword ''BY''),
      (TkEngine, match_keyword ''ENGINE''),
      (TkAs, match_keyword ''AS''),
      (TkWith, match_keyword ''WITH''),
      (TkSelect, match_keyword ''SELECT''),
      (TkFrom, match_keyword ''FROM''),
      (TkTo, match_keyword ''TO''),
      (TkFor, match_keyword ''FOR''),
      (TkStringLiteral, match_StringLiteral),
      (TkInteger, match_while is_digit),
      (TkIdentifier, match_Identifier),
      (TkUnknown, match_Unknown)]"

text \<open>
  The lexer of the Chevrotain library, which runs these patterns: at each offset the
  first token type in the list whose pattern matches there is taken and the offset
  moves past the match; a skipped type yields no token. Where no pattern matches, a
  lexing error is recorded and one character is dropped. \<open>lex_errors\<close> holds the
  offset of every dropped character (the library reports a run of them as one error;
  the parser only asks whether there is any).
\<close>

fun first_match ::
  "(TokenType \<times> (char option \<Rightarrow> string \<Rightarrow> nat option)) list \<Rightarrow> char option \<Rightarrow> string \<Rightarrow> (TokenType \<times> nat) option" where
  "first_match [] prev s = None"
| "first_match ((tt, m) # ps) prev s =
     (case m prev s of
        Some n \<Rightarrow> Some (tt, n)
      | None \<Rightarrow> first_match ps prev s)"

datatype LexResult = LexResult (lex_tokens: "Token list") (lex_errors: "nat list")

definition positive_matcher :: "(char option \<Rightarrow> string \<Rightarrow> nat option) \<Rightarrow> bool" where
  "positive_matcher m = (\<forall>prev s n. m prev s = Some n \<longrightarrow> 0 < n)"

lemma positive_literal: "lit \<noteq> [] \<Longrightarrow> positive_matcher (match_literal lit)"
  by (simp add: positive_matcher_def match_literal_def)

lemma positive_keyword: "kw \<noteq> [] \<Longrightarrow> positive_matcher (match_keyword kw)"
  by (auto simp: positive_matcher_def match_keyword_def split: if_splits list.splits)

lemma positive_while: "positive_matcher (match_while p)"
  by (simp add: positive_matcher_def match_while_def Let_def)

lemma positive_LineComment: "positive_matcher match_LineComment"
  by (simp add: positive_matcher_def match_LineComment_def)

lemma positive_BlockComment: "positive_matcher match_BlockComment"
  by (auto simp: positive_matcher_def match_BlockComment_def split: if_splits)

lemma positive_StringLiteral: "positive_matcher match_StringLiteral"
  by (auto simp: positive_matcher_def match_StringLiteral_def split: list.splits if_splits)

lemma positive_Identifier: "positive_matcher match_Identifier"
  by (auto simp: positive_matcher_def match_Identifier_def split: list.splits if_splits)

lemma positive_Unknown: "positive_matcher match_Unknown"
  by (auto simp: positive_matcher_def match_Unknown_def split: list.splits if_splits)

lemmas positive_matchers = positive_literal positive_keyword positive_while positive_LineComment
  positive_BlockComment positive_StringLiteral positive_Identifier positive_Unknown

lemma ddlLexer_positive: "list_all (\<lambda>(tt, m). positive_matcher m) ddlLexer"
  unfolding ddlLexer_def by (simp add: positive_matchers)

lemma first_match_positive:
  "list_all (\<lambda>(tt, m). positive_matcher m) ps \<Longrightarrow> first_match ps prev s = Some (tt, n) \<Longrightarrow> 0 < n"
proof (induction ps)
  case Nil
  then show ?case by simp
next
  case (Cons p ps)
  obtain t m where p: "p = (t, m)" by (cases p)
  show ?case
  proof (cases "m prev s")
    case None
    with Cons p show ?thesis by simp
  next
    case (Some k)
    with Cons.prems p have "0 < k" by (simp add: positive_matcher_def)
    with Cons.prems p Some show ?thesis by simp
  qed
qed

lemma first_match_pos: "first_match ddlLexer prev s = Some (tt, n) \<Longrightarrow> 0 < n"
  using ddlLexer_positive by (rule first_match_positive)

text \<open>
  What happens at one offset: the token type that matches, if any, and the number of
  characters the lexer moves on (one for a character it drops).
\<close>

definition match_at :: "char option \<Rightarrow> string \<Rightarrow> TokenType option \<times> nat" where
  "match_at prev s =
     (case first_match ddlLexer prev s of
        None \<Rightarrow> (None, 1)
      | Some (tt, n) \<Rightarrow> (Some tt, n))"

lemma match_at_pos: "match_at prev s = (kind, n) \<Longrightarrow> 0 < n"
  by (auto simp: match_at_def split: option.splits dest: first_match_pos)

fun record_match :: "nat \<Rightarrow> TokenType option \<Rightarrow> string \<Rightarrow> LexResult \<Rightarrow> LexResult" where
  "record_match offset None img (LexResult tokens errors) = LexResult tokens (offset # errors)"
| "record_match offset (Some tt) img (LexResult tokens errors) =
     (if skipped tt then LexResult tokens errors
      else LexResult (\<lparr>tokenType = tt, tok_image = img\<rparr> # tokens) errors)"

function tokenize_from :: "nat \<Rightarrow> char option \<Rightarrow> string \<Rightarrow> LexResult" where
  "tokenize_from offset prev [] = LexResult [] []"
| "tokenize_from offset prev (c # cs) =
     (case match_at prev (c # cs) of
        (kind, n) \<Rightarrow>
          record_match offset kind (take n (c # cs))
            (tokenize_from (offset + n) (Some (last (take n (c # cs)))) (drop n (c # cs))))"
  by pat_completeness auto
termination
proof (relation "measure (\<lambda>(offset, prev, s). length s)", goal_cases)
  case 1
  show ?case by simp
next
  case (2 offset prev c cs kind n)
  from match_at_pos[OF 2[symmetric]] show ?case by simp
qed

definition tokenize :: "string \<Rightarrow> LexResult" where
  "tokenize text = tokenize_from 0 None text"

section \<open>Parser (\<open>parser.ts\<close>)\<close>

text \<open>
  The parser state \<open>{ tokens, position, maxTokens }\<close>. Every parsing function takes
  the state and returns its result together with the state it leaves behind; a
  \<open>throw\<close> is an \<open>Inl\<close> result, and the state it leaves is the one at the point of
  the throw, which is where the driver resumes after catching it.
\<close>

record ParserState =
  ps_tokens :: "Token list"
  ps_position :: nat
  ps_maxTokens :: nat

type_synonym 'a parser = "ParserState \<Rightarrow> (error + 'a) \<times> ParserState"

definition returnP :: "'a \<Rightarrow> 'a parser" where
  "returnP x st = (Inr x, st)"

definition throwP :: "error \<Rightarrow> 'a parser" where
  "throwP e st = (Inl e, st)"

text \<open>Sequencing: run \<open>m\<close>, and unless it threw, continue with \<open>f\<close> on its result.\<close>

definition bindP :: "'a parser \<Rightarrow> ('a \<Rightarrow> 'b parser) \<Rightarrow> 'b parser" where
  "bindP m f st = (case m st of (Inl e, st1) \<Rightarrow> (Inl e, st1) | (Inr x, st1) \<Rightarrow> f x st1)"

definition createParserState :: "Token list \<Rightarrow> error + ParserState" where
  "createParserState tokens =
     (if length tokens \<le> 10000
      then Inr \<lparr>ps_tokens = tokens, ps_position = 0, ps_maxTokens = length tokens\<rparr>
      else Inl (ParseError ''Token count exceeds safety limit''))"

definition isAtEnd :: "ParserState \<Rightarrow> bool" where
  "isAtEnd st = (ps_position st \<ge> ps_maxTokens st)"

definition peekToken :: "ParserState \<Rightarrow> nat \<Rightarrow> Token option" where
  "peekToken st offset =
     (let pos = ps_position st + offset in
      if pos < ps_maxTokens st then nth_opt (ps_tokens st) pos else None)"

text \<open>\<open>state.position++\<close>\<close>

definition advance :: "ParserState \<Rightarrow> ParserState" where
  "advance st = st\<lparr>ps_position := Suc (ps_position st)\<rparr>"

definition peekType :: "ParserState \<Rightarrow> TokenType option" where
  "peekType st = map_option tokenType (peekToken st 0)"

definition tryMatch :: "TokenType \<Rightarrow> ParserState \<Rightarrow> bool \<times> ParserState" where
  "tryMatch tt st =
     (case peekToken st 0 of
        Some token \<Rightarrow> if tokenType token = tt then (True, advance st) else (False, st)
      | None \<Rightarrow> (False, st))"

definition consumeToken :: "TokenType \<Rightarrow> string \<Rightarrow> Token parser" where
  "consumeToken tt expected st =
     (case peekToken st 0 of
        Some token \<Rightarrow>
          if tokenType token = tt then (Inr token, advance st)
          else (Inl (ParseError (''Expected '' @ expected @ '' at position '' @ showNat (ps_position st))), st)
      | None \<Rightarrow> (Inl (ParseError (''Expected '' @ expected @ '' at position '' @ showNat (ps_position st))), st))"

text \<open>\<open>tryMatch\<close> inside a sequence of parsing steps.\<close>

definition tryMatchP :: "TokenType \<Rightarrow> bool parser" where
  "tryMatchP tt st = (case tryMatch tt st of (b, st1) \<Rightarrow> (Inr b, st1))"

text \<open>
  \<open>skipToToken\<close>: \<open>while (!isAtEnd(state) && !tryMatch(state, targetType)) { state.position++; ... }\<close>
  with its limit of 1000 positions from the start.
\<close>

function skipToToken_loop :: "TokenType \<Rightarrow> nat \<Rightarrow> unit parser" where
  "skipToToken_loop targetType startPos st =
     (if isAtEnd st then (Inr (), st)
      else if fst (tryMatch targetType st) then (Inr (), snd (tryMatch targetType st))
      else if ps_position (advance st) - startPos > 1000
      then (Inl (ParseError ''Skip limit exceeded - possible infinite loop''), advance st)
      else skipToToken_loop targetType startPos (advance st))"
  by pat_completeness auto
termination
  by (relation "measure (\<lambda>(targetType, startPos, st). ps_maxTokens st - ps_position st)")
     (auto simp: isAtEnd_def advance_def)

declare skipToToken_loop.simps [simp del]

definition skipToToken :: "TokenType \<Rightarrow> unit parser" where
  "skipToToken targetType st = skipToToken_loop targetType (ps_position st) st"

text \<open>
  The loop shared by \<open>skipBalancedParens\<close> (limit 1000) and \<open>parseCTEBlockOnly\<close>
  (limit 5000): \<open>while (!isAtEnd(state) && depth > 0) { if (tryMatch(LParen)) depth++;
  else if (tryMatch(RParen)) depth--; else state.position++; ... }\<close>.
  \<open>balanced_step\<close> is one pass through the three branches of the body.
\<close>

definition balanced_step :: "nat \<Rightarrow> ParserState \<Rightarrow> nat \<times> ParserState" where
  "balanced_step depth st =
     (case tryMatch TkLParen st of
        (True, sa) \<Rightarrow> (Suc depth, sa)
      | (False, sa) \<Rightarrow>
          (case tryMatch TkRParen sa of
             (True, sb) \<Rightarrow> (depth - 1, sb)
           | (False, sb) \<Rightarrow> (depth, advance sb)))"

lemma balanced_step_state:
  "\<not> isAtEnd st \<Longrightarrow> snd (balanced_step depth st) = advance st"
  by (auto simp: balanced_step_def tryMatch_def isAtEnd_def split: option.splits)

function balanced_loop :: "nat \<Rightarrow> string \<Rightarrow> nat \<Rightarrow> nat \<Rightarrow> unit parser" where
  "balanced_loop limit message startPos depth st =
     (if isAtEnd st \<or> depth = 0 then (Inr (), st)
      else if ps_position (snd (balanced_step depth st)) - startPos > limit
      then (Inl (ParseError message), snd (balanced_step depth st))
      else balanced_loop limit message startPos
             (fst (balanced_step depth st)) (snd (balanced_step depth st)))"
  by pat_completeness auto
termination
  by (relation "measure (\<lambda>(limit, message, startPos, depth, st). ps_maxTokens st - ps_position st)")
     (auto simp: balanced_step_state isAtEnd_def advance_def)

declare balanced_loop.simps [simp del]

text \<open>A branch on a value computed earlier in a sequence of parsing steps.\<close>

definition ifP :: "bool \<Rightarrow> 'a parser \<Rightarrow> 'a parser \<Rightarrow> 'a parser" where
  "ifP b m1 m2 st = (if b then m1 st else m2 st)"

text \<open>
  No parsing function changes the token array or its bound, and none moves the
  position backwards; the recursive functions below terminate for that reason.
\<close>

definition advances :: "ParserState \<Rightarrow> ParserState \<Rightarrow> bool" where
  "advances st st' =
     (ps_tokens st' = ps_tokens st \<and> ps_maxTokens st' = ps_maxTokens st \<and>
      ps_position st \<le> ps_position st')"

lemma advances_refl [simp]: "advances st st"
  by (simp add: advances_def)

lemma advances_trans: "advances a b \<Longrightarrow> advances b c \<Longrightarrow> advances a c"
  by (simp add: advances_def)

lemma advances_advance [simp]: "advances st (advance st)"
  by (simp add: advances_def advance_def)

lemma bindP_cong [fundef_cong]:
  assumes "m1 st1 = m2 st2" "st1 = st2"
    and "\<And>x s'. m2 st2 = (Inr x, s') \<Longrightarrow> f1 x s' = f2 x s'"
  shows "bindP m1 f1 st1 = bindP m2 f2 st2"
  using assms by (auto simp: bindP_def split: prod.splits sum.splits)

lemma ifP_cong [fundef_cong]:
  assumes "b = c" "st1 = st2" "c \<Longrightarrow> m1 st2 = n1 st2" "\<not> c \<Longrightarrow> m2 st2 = n2 st2"
  shows "ifP b m1 m2 st1 = ifP c n1 n2 st2"
  using assms by (simp add: ifP_def)

lemma bindP_advances:
  assumes "advances st (snd (m st))"
    and "\<And>x s1. m st = (Inr x, s1) \<Longrightarrow> advances s1 (snd (f x s1))"
  shows "advances st (snd (bindP m f st))"
  using assms by (auto simp: bindP_def split: prod.splits sum.splits intro: advances_trans)

lemma ifP_advances:
  assumes "b \<Longrightarrow> advances st (snd (m1 st))" "\<not> b \<Longrightarrow> advances st (snd (m2 st))"
  shows "advances st (snd (ifP b m1 m2 st))"
  using assms by (simp add: ifP_def)


lemma returnP_advances [simp]: "advances st (snd (returnP x st))"
  by (simp add: returnP_def)

lemma throwP_advances [simp]: "advances st (snd (throwP e st))"
  by (simp add: throwP_def)

lemma consumeToken_advances [simp]: "advances st (snd (consumeToken tt ex st))"
  by (auto simp: consumeToken_def split: option.splits)

lemma tryMatchP_advances [simp]: "advances st (snd (tryMatchP tt st))"
  by (auto simp: tryMatchP_def tryMatch_def split: option.splits)

lemma consumeToken_strict:
  "consumeToken tt ex st = (Inr t, st') \<Longrightarrow>
     advances st st' \<and> ps_position st < ps_position st' \<and> ps_position st < ps_maxTokens st"
  by (auto simp: consumeToken_def advance_def advances_def peekToken_def Let_def split: option.splits if_splits)

lemma tryMatchP_strict:
  "tryMatchP tt st = (Inr True, st') \<Longrightarrow>
     advances st st' \<and> ps_position st < ps_position st' \<and> ps_position st < ps_maxTokens st"
  by (auto simp: tryMatchP_def tryMatch_def advance_def advances_def peekToken_def Let_def split: option.splits if_splits)

lemma tryMatch_state:
  "snd (tryMatch tt st) = (if fst (tryMatch tt st) then advance st else st)"
  by (auto simp: tryMatch_def split: option.splits)

lemma skipToToken_loop_advances [simp]:
  "advances st (snd (skipToToken_loop targetType startPos st))"
proof (induct targetType startPos st rule: skipToToken_loop.induct)
  case (1 targetType startPos st)
  show ?case
    using 1 unfolding skipToToken_loop.simps[of targetType startPos st]
    by (auto simp: advances_def advance_def tryMatch_state)
qed

lemma skipToToken_advances [simp]: "advances st (snd (skipToToken targetType st))"
  by (simp add: skipToToken_def)

lemma balanced_loop_advances [simp]:
  "advances st (snd (balanced_loop limit message startPos depth st))"
proof (induct limit message startPos depth st rule: balanced_loop.induct)
  case (1 limit message startPos depth st)
  show ?case
    using 1 unfolding balanced_loop.simps[of limit message startPos depth st]
    by (auto simp: advances_def advance_def balanced_step_state)
qed

lemma tryMatchP_result: "tryMatchP tt st = (r, st') \<Longrightarrow> advances st st'"
  by (auto simp: tryMatchP_def tryMatch_def split: option.splits if_splits)

lemma consumeToken_result: "consumeToken tt ex st = (r, st') \<Longrightarrow> advances st st'"
  by (auto simp: consumeToken_def split: option.splits if_splits)

text \<open>\<open>canonicalTypeName\<close>\<close>

definition canonicalTypeName :: "string \<Rightarrow> string" where
  "canonicalTypeName name =
     (let n = toLowerCase name in
      if n = ''nullable'' then ''Nullable''
      else if n = ''lowcardinality'' then ''LowCardinality''
      else if n = ''array'' then ''Array''
      else if n = ''tuple'' then ''Tuple''
      else if n = ''map'' then ''Map''
      else if n = ''enum8'' then ''Enum8''
      else if n = ''enum16'' then ''Enum16''
      else if n = ''decimal'' then ''Decimal''
      else if n = ''fixedstring'' then ''FixedString''
      else if n = ''datetime'' then ''DateTime''
      else if n = ''datetime64'' then ''DateTime64''
      else (case name of
              [] \<Rightarrow> []
            | c # cs \<Rightarrow> if is_upper c then name else upper_char c # cs))"

text \<open>\<open>unquote\<close>: \<open>s.slice(1, -1).replace(/\\'/g, "'")\<close> when \<open>s\<close> starts and ends with a quote.\<close>

fun unescape_quotes :: "string \<Rightarrow> string" where
  "unescape_quotes [] = []"
| "unescape_quotes [c] = [c]"
| "unescape_quotes (c # d # cs) =
     (if c = CHR 0x5C \<and> d = CHR 0x27 then CHR 0x27 # unescape_quotes cs
      else c # unescape_quotes (d # cs))"

definition unquote :: "string \<Rightarrow> string" where
  "unquote s =
     (if startsWith s [CHR 0x27] \<and> endsWith s [CHR 0x27]
      then unescape_quotes (take (length s - 2) (drop 1 s))
      else s)"

text \<open>
  \<open>Number(image)\<close> of an Integer token, a string of decimal digits: the double nearest
  to the number that the digits denote, a tie going to the even significand.
  A number of at most 53 bits is a double. A number \<open>v\<close> of \<open>53 + shift\<close> bits lies
  between the doubles \<open>q * 2 ^ shift\<close> and \<open>(q + 1) * 2 ^ shift\<close>, where
  \<open>q = v div 2 ^ shift\<close>; when the nearest of them reaches \<open>2 ^ 1024\<close>, the result is
  \<open>Infinity\<close>.
\<close>

function bit_length :: "nat \<Rightarrow> nat" where
  "bit_length n = (if n = 0 then 0 else Suc (bit_length (n div 2)))"
  by pat_completeness auto
termination
  by (relation "measure id") auto

definition nearest_double :: "nat \<Rightarrow> js_number" where
  "nearest_double v =
     (if bit_length v \<le> 53 then JsInt (int v)
      else
        (let shift = bit_length v - 53;
             q = v div 2 ^ shift;
             r = v mod 2 ^ shift;
             half = 2 ^ (shift - 1);
             rounded = (if half < r \<or> (r = half \<and> odd q) then q + 1 else q) * 2 ^ shift
         in if 2 ^ 1024 \<le> rounded then JsInfinity else JsInt (int rounded)))"

definition number_of_image :: "string \<Rightarrow> js_number" where
  "number_of_image s = nearest_double (decimal_value s)"




text \<open>
  \<open>parseTypeExpr\<close> and \<open>parseTypeArg\<close>; \<open>parseTypeArgs\<close> is the loop
  \<open>do { args.push(this.parseTypeArg(name)); } while (tryMatch(this.state, Comma));\<close>.
\<close>

function (domintros) parseTypeExpr :: "TypeAst parser"
  and parseTypeArgs :: "TypeArg list parser"
  and parseTypeArg :: "TypeArg parser" where
  "parseTypeExpr st =
     bindP (consumeToken TkIdentifier ''type identifier'') (\<lambda>id.
     bindP (tryMatchP TkLParen) (\<lambda>has_args.
       ifP has_args
         (bindP (tryMatchP TkRParen) (\<lambda>closed.
            ifP closed
              (returnP (TypeAst (canonicalTypeName (tok_image id)) []))
              (bindP parseTypeArgs (\<lambda>args.
               bindP (consumeToken TkRParen '')'') (\<lambda>_.
               returnP (TypeAst (canonicalTypeName (tok_image id)) args))))))
         (returnP (TypeAst (canonicalTypeName (tok_image id)) [])))) st"
| "parseTypeArgs st =
     bindP parseTypeArg (\<lambda>arg.
     bindP (tryMatchP TkComma) (\<lambda>more.
       ifP more
         (bindP parseTypeArgs (\<lambda>args. returnP (arg # args)))
         (returnP [arg]))) st"
| "parseTypeArg st =
     (case peekToken st 0 of
        None \<Rightarrow> throwP (ParseError ''Unexpected EOF'') st
      | Some t \<Rightarrow>
          if tokenType t = TkIdentifier then
            bindP parseTypeExpr (\<lambda>ty. returnP (ArgType ty)) st
          else if tokenType t = TkStringLiteral then
            bindP (consumeToken TkStringLiteral ''string'') (\<lambda>tok.
            bindP (tryMatchP TkEq) (\<lambda>is_member.
              ifP is_member
                (bindP (consumeToken TkInteger ''integer'') (\<lambda>num.
                 returnP (ArgEnumMember (unquote (tok_image tok)) (number_of_image (tok_image num)))))
                (returnP (ArgString (unquote (tok_image tok)))))) st
          else if tokenType t = TkInteger then
            bindP (consumeToken TkInteger ''integer'') (\<lambda>num.
            returnP (ArgNumber (number_of_image (tok_image num)))) st
          else returnP (ArgString (tok_image t)) (advance st))"
  by pat_completeness auto

lemma parseType_advances_dom:
  "parseTypeExpr_parseTypeArgs_parseTypeArg_dom (Inl st) \<Longrightarrow> advances st (snd (parseTypeExpr st))"
  "parseTypeExpr_parseTypeArgs_parseTypeArg_dom (Inr (Inl st1)) \<Longrightarrow> advances st1 (snd (parseTypeArgs st1))"
  "parseTypeExpr_parseTypeArgs_parseTypeArg_dom (Inr (Inr st2)) \<Longrightarrow> advances st2 (snd (parseTypeArg st2))"
proof (induct rule: parseTypeExpr_parseTypeArgs_parseTypeArg.pinduct)
  case (1 st)
  show ?case
    unfolding parseTypeExpr.psimps[OF 1(1)]
    by (intro bindP_advances ifP_advances 1(2); (assumption | simp))
next
  case (2 st)
  show ?case
    unfolding parseTypeArgs.psimps[OF 2(1)]
    by (intro bindP_advances ifP_advances 2(2) 2(3); (assumption | simp))
next
  case (3 st)
  show ?case
    unfolding parseTypeArg.psimps[OF 3(1)]
    by (auto intro!: bindP_advances ifP_advances 3(2) split: option.splits simp: returnP_def)
qed

termination parseTypeExpr
proof (relation "measure (\<lambda>x. case x of
         Inl st \<Rightarrow> 3 * (ps_maxTokens st - ps_position st)
       | Inr (Inl st) \<Rightarrow> 3 * (ps_maxTokens st - ps_position st) + 2
       | Inr (Inr st) \<Rightarrow> 3 * (ps_maxTokens st - ps_position st) + 1)", goal_cases)
  case 1
  show ?case by simp
next
  case (2 st id s1 has_args s2 closed s3)
  from consumeToken_strict[OF 2(1)] tryMatchP_result[OF 2(2)] tryMatchP_result[OF 2(4)]
  show ?case
    by (auto simp: advances_def)
next
  case (3 st)
  then show ?case by simp
next
  case (4 st arg s1 more s2)
  have "advances st s1"
    using parseType_advances_dom(3)[OF 4(4)] 4(1) by simp
  with tryMatchP_strict[of TkComma s1 s2] 4(2,3)
  show ?case
    by (auto simp: advances_def)
next
  case (5 st t)
  then show ?case by simp
qed


declare parseTypeExpr.simps [simp del] parseTypeArgs.simps [simp del] parseTypeArg.simps [simp del]

lemma parseType_advances [simp]:
  "advances st (snd (parseTypeExpr st))"
  "advances st1 (snd (parseTypeArgs st1))"
  "advances st2 (snd (parseTypeArg st2))"
proof (induct st and st1 and st2 rule: parseTypeExpr_parseTypeArgs_parseTypeArg.induct)
  case (1 st)
  show ?case
    unfolding parseTypeExpr.simps[of st]
    by (intro bindP_advances ifP_advances 1; (assumption | simp))
next
  case (2 st)
  show ?case
    unfolding parseTypeArgs.simps[of st]
    by (intro bindP_advances ifP_advances 2; (assumption | simp))
next
  case (3 st)
  show ?case
    unfolding parseTypeArg.simps[of st]
    by (auto intro!: bindP_advances ifP_advances 3 split: option.splits simp: returnP_def)
qed

text \<open>Reading the state inside a sequence of parsing steps.\<close>

definition getPosition :: "nat parser" where
  "getPosition st = (Inr (ps_position st), st)"

definition getTokens :: "Token list parser" where
  "getTokens st = (Inr (ps_tokens st), st)"

definition peekTypeAt :: "nat \<Rightarrow> TokenType option parser" where
  "peekTypeAt offset st = (Inr (map_option tokenType (peekToken st offset)), st)"

definition advanceP :: "unit parser" where
  "advanceP st = (Inr (), advance st)"

lemma getPosition_advances [simp]: "advances st (snd (getPosition st))"
  by (simp add: getPosition_def)

lemma getTokens_advances [simp]: "advances st (snd (getTokens st))"
  by (simp add: getTokens_def)

lemma peekTypeAt_advances [simp]: "advances st (snd (peekTypeAt n st))"
  by (simp add: peekTypeAt_def)

lemma advanceP_advances [simp]: "advances st (snd (advanceP st))"
  by (simp add: advanceP_def)

text \<open>\<open>captureExpressionUntil\<close>; the result is \<open>parts.join("").trim().replace(/;\s*$/, "")\<close>.\<close>

fun strip_semi_tail :: "string \<Rightarrow> string" where
  "strip_semi_tail [] = []"
| "strip_semi_tail (c # cs) =
     (if c = CHR '';'' \<and> list_all is_js_space cs then [] else c # strip_semi_tail cs)"

function capture_loop :: "TokenType list \<Rightarrow> nat \<Rightarrow> string list \<Rightarrow> string list parser" where
  "capture_loop stoppers startPos parts st =
     (if isAtEnd st then (Inr parts, st)
      else case peekToken st 0 of
        None \<Rightarrow> (Inr parts, st)
      | Some t \<Rightarrow>
          if stoppers \<noteq> [] \<and> tokenType t \<in> set stoppers then (Inr parts, st)
          else if ps_position (advance st) - startPos > 500
          then (Inl (ParseError ''Expression capture limit exceeded''), advance st)
          else capture_loop stoppers startPos (parts @ [tok_image t]) (advance st))"
  by pat_completeness auto
termination
  by (relation "measure (\<lambda>(stoppers, startPos, parts, st). ps_maxTokens st - ps_position st)")
     (auto simp: isAtEnd_def advance_def)

declare capture_loop.simps [simp del]

lemma capture_loop_advances [simp]: "advances st (snd (capture_loop stoppers startPos parts st))"
proof (induct stoppers startPos parts st rule: capture_loop.induct)
  case (1 stoppers startPos parts st)
  show ?case
    using 1 unfolding capture_loop.simps[of stoppers startPos parts st]
    by (auto simp: advances_def advance_def split: option.splits)
qed

definition captureExpressionUntil :: "TokenType list \<Rightarrow> string parser" where
  "captureExpressionUntil stoppers =
     bindP getPosition (\<lambda>startPos.
     bindP (capture_loop stoppers startPos []) (\<lambda>parts.
     returnP (strip_semi_tail (trim (concat parts)))))"

lemma captureExpressionUntil_advances [simp]:
  "advances st (snd (captureExpressionUntil stoppers st))"
  unfolding captureExpressionUntil_def
  by (intro bindP_advances ifP_advances; simp)

definition parseQualifiedName :: "string parser" where
  "parseQualifiedName =
     bindP (consumeToken TkIdentifier ''identifier'') (\<lambda>first.
     bindP (tryMatchP TkDot) (\<lambda>dotted.
       ifP dotted
         (bindP (consumeToken TkIdentifier ''identifier'') (\<lambda>second.
          returnP (tok_image second)))
         (returnP (tok_image first))))"

lemma parseQualifiedName_advances [simp]: "advances st (snd (parseQualifiedName st))"
  unfolding parseQualifiedName_def
  by (intro bindP_advances ifP_advances; simp)

definition parseTableType :: "bool parser" where
  "parseTableType =
     bindP (tryMatchP TkMaterialized) (\<lambda>materialized.
       ifP materialized
         (bindP (consumeToken TkView ''VIEW'') (\<lambda>_. returnP True))
         (bindP (consumeToken TkTable ''TABLE'') (\<lambda>_. returnP False)))"

lemma parseTableType_advances [simp]: "advances st (snd (parseTableType st))"
  unfolding parseTableType_def
  by (intro bindP_advances ifP_advances; simp)

definition parseOptionalIfNotExists :: "unit parser" where
  "parseOptionalIfNotExists =
     bindP (tryMatchP TkIf) (\<lambda>found.
       ifP found
         (bindP (tryMatchP TkNot) (\<lambda>_.
          bindP (tryMatchP TkExists) (\<lambda>_. returnP ())))
         (returnP ()))"

lemma parseOptionalIfNotExists_advances [simp]: "advances st (snd (parseOptionalIfNotExists st))"
  unfolding parseOptionalIfNotExists_def
  by (intro bindP_advances ifP_advances; simp)


text \<open>\<open>skipBalancedParens\<close>\<close>

definition skipBalancedParens :: "unit parser" where
  "skipBalancedParens =
     bindP getPosition (\<lambda>startPos.
     balanced_loop 1000 ''Parentheses depth limit exceeded'' startPos 1)"

lemma skipBalancedParens_advances [simp]: "advances st (snd (skipBalancedParens st))"
  unfolding skipBalancedParens_def
  by (intro bindP_advances ifP_advances; simp)

text \<open>\<open>skipToColumnName\<close>\<close>

function skipToColumnName_loop :: "nat \<Rightarrow> unit parser" where
  "skipToColumnName_loop startPos st =
     (if \<not> isAtEnd st \<and> peekType st \<noteq> Some TkIdentifier \<and> peekType st \<noteq> Some TkRParen
      then if ps_position (advance st) - startPos > 100
           then (Inl (ParseError ''Column name search limit exceeded''), advance st)
           else skipToColumnName_loop startPos (advance st)
      else (Inr (), st))"
  by pat_completeness auto
termination
  by (relation "measure (\<lambda>(startPos, st). ps_maxTokens st - ps_position st)")
     (auto simp: isAtEnd_def advance_def)

declare skipToColumnName_loop.simps [simp del]

lemma skipToColumnName_loop_advances [simp]:
  "advances st (snd (skipToColumnName_loop startPos st))"
proof (induct startPos st rule: skipToColumnName_loop.induct)
  case (1 startPos st)
  show ?case
    using 1 unfolding skipToColumnName_loop.simps[of startPos st]
    by (auto simp: advances_def advance_def)
qed

definition skipToColumnName :: "unit parser" where
  "skipToColumnName = bindP getPosition skipToColumnName_loop"

lemma skipToColumnName_advances [simp]: "advances st (snd (skipToColumnName st))"
  unfolding skipToColumnName_def
  by (intro bindP_advances ifP_advances; simp)

definition parseOptionalComment :: "string option parser" where
  "parseOptionalComment =
     bindP (tryMatchP TkComment) (\<lambda>found.
       ifP found
         (bindP (consumeToken TkStringLiteral ''string'') (\<lambda>s.
          returnP (Some (unquote (tok_image s)))))
         (returnP None))"

lemma parseOptionalComment_advances [simp]: "advances st (snd (parseOptionalComment st))"
  unfolding parseOptionalComment_def
  by (intro bindP_advances ifP_advances; simp)

text \<open>\<open>parseOptionalDefault\<close>; the result is \<open>parts.join(" ").trim()\<close>.\<close>

function default_loop :: "nat \<Rightarrow> string list \<Rightarrow> string list parser" where
  "default_loop startPos parts st =
     (case peekToken st 0 of
        None \<Rightarrow> (Inr parts, st)
      | Some t \<Rightarrow>
          if tokenType t = TkComma \<or> tokenType t = TkRParen then (Inr parts, st)
          else if ps_position (advance st) - startPos > 50
          then (Inl (ParseError ''Default value parsing limit exceeded''), advance st)
          else default_loop startPos (parts @ [tok_image t]) (advance st))"
  by pat_completeness auto
termination
  by (relation "measure (\<lambda>(startPos, parts, st). ps_maxTokens st - ps_position st)")
     (auto simp: peekToken_def advance_def Let_def split: if_splits)

declare default_loop.simps [simp del]

lemma default_loop_advances [simp]: "advances st (snd (default_loop startPos parts st))"
proof (induct startPos parts st rule: default_loop.induct)
  case (1 startPos parts st)
  show ?case
    using 1 unfolding default_loop.simps[of startPos parts st]
    by (auto simp: advances_def advance_def split: option.splits)
qed

definition parseOptionalDefault :: "string option parser" where
  "parseOptionalDefault =
     bindP (tryMatchP TkDefault) (\<lambda>found.
       ifP found
         (bindP getPosition (\<lambda>startPos.
          bindP (default_loop startPos []) (\<lambda>parts.
          returnP (Some (trim (join '' '' parts))))))
         (returnP None))"

lemma parseOptionalDefault_advances [simp]: "advances st (snd (parseOptionalDefault st))"
  unfolding parseOptionalDefault_def
  by (intro bindP_advances ifP_advances; simp)

text \<open>\<open>parseOptionalCodec\<close>\<close>

function codec_loop :: "nat \<Rightarrow> unit parser" where
  "codec_loop startPos st =
     (if fst (tryMatch TkRParen st) then (Inr (), snd (tryMatch TkRParen st))
      else if isAtEnd st then (Inl (ParseError ''Unterminated CODEC''), st)
      else if ps_position (advance st) - startPos > 100
      then (Inl (ParseError ''CODEC parsing limit exceeded''), advance st)
      else codec_loop startPos (advance st))"
  by pat_completeness auto
termination
  by (relation "measure (\<lambda>(startPos, st). ps_maxTokens st - ps_position st)")
     (auto simp: isAtEnd_def advance_def)

declare codec_loop.simps [simp del]

lemma codec_loop_advances [simp]: "advances st (snd (codec_loop startPos st))"
proof (induct startPos st rule: codec_loop.induct)
  case (1 startPos st)
  show ?case
    using 1 unfolding codec_loop.simps[of startPos st]
    by (auto simp: advances_def advance_def tryMatch_state)
qed

definition parseOptionalCodec :: "unit parser" where
  "parseOptionalCodec =
     bindP (tryMatchP TkCodec) (\<lambda>found.
       ifP found
         (bindP (consumeToken TkLParen ''('') (\<lambda>_.
          bindP getPosition codec_loop))
         (returnP ()))"

lemma parseOptionalCodec_advances [simp]: "advances st (snd (parseOptionalCodec st))"
  unfolding parseOptionalCodec_def
  by (intro bindP_advances ifP_advances; simp)

text \<open>
  \<open>parseColumnDef\<close>; \<open>rawType\<close> is the concatenation of the images of the tokens
  the type expression consumed, \<open>tokens.slice(typeStart, typeEnd)\<close>.
\<close>

definition parseColumnDef :: "ColumnAst parser" where
  "parseColumnDef =
     bindP skipToColumnName (\<lambda>_.
     bindP (consumeToken TkIdentifier ''column name'') (\<lambda>nameTok.
     bindP getPosition (\<lambda>typeStart.
     bindP parseTypeExpr (\<lambda>ty.
     bindP getPosition (\<lambda>typeEnd.
     bindP parseOptionalComment (\<lambda>comment.
     bindP parseOptionalDefault (\<lambda>defaultValue.
     bindP parseOptionalCodec (\<lambda>_.
     bindP getTokens (\<lambda>tokens.
     returnP \<lparr>col_name = tok_image nameTok,
              col_type = ty,
              col_rawType = concat (map tok_image (take (typeEnd - typeStart) (drop typeStart tokens))),
              col_comment = comment,
              col_default = defaultValue\<rparr>)))))))))"

lemma parseColumnDef_advances [simp]: "advances st (snd (parseColumnDef st))"
  unfolding parseColumnDef_def
  by (intro bindP_advances ifP_advances; simp)

text \<open>
  \<open>parseOptionalColumns\<close>; \<open>columns_loop\<close> is
  \<open>do { columns.push(this.parseColumnDef()); } while (tryMatch(this.state, Comma));\<close>.
\<close>

function columns_loop :: "ColumnAst list parser" where
  "columns_loop st =
     bindP parseColumnDef (\<lambda>column.
     bindP (tryMatchP TkComma) (\<lambda>more.
       ifP more
         (bindP columns_loop (\<lambda>columns. returnP (column # columns)))
         (returnP [column]))) st"
  by pat_completeness auto
termination
proof (relation "measure (\<lambda>st. ps_maxTokens st - ps_position st)", goal_cases)
  case 1
  show ?case by simp
next
  case (2 st column s1 more s2)
  have "advances st s1"
    using parseColumnDef_advances[of st] 2(1) by simp
  with tryMatchP_strict[of TkComma s1 s2] 2(2,3)
  show ?case
    by (auto simp: advances_def)
qed

declare columns_loop.simps [simp del]

lemma columns_loop_advances [simp]: "advances st (snd (columns_loop st))"
proof (induct st rule: columns_loop.induct)
  case (1 st)
  show ?case
    unfolding columns_loop.simps[of st]
    by (intro bindP_advances ifP_advances 1; (assumption | simp))
qed

definition parseOptionalColumns :: "ColumnAst list parser" where
  "parseOptionalColumns =
     bindP (tryMatchP TkLParen) (\<lambda>opened.
       ifP opened
         (bindP (tryMatchP TkRParen) (\<lambda>closed.
            ifP closed
              (returnP [])
              (bindP columns_loop (\<lambda>columns.
               bindP (tryMatchP TkRParen) (\<lambda>finished.
                 ifP finished
                   (returnP columns)
                   (bindP (skipToToken TkRParen) (\<lambda>_. returnP columns)))))))
         (returnP []))"

lemma parseOptionalColumns_advances [simp]: "advances st (snd (parseOptionalColumns st))"
  unfolding parseOptionalColumns_def
  by (intro bindP_advances ifP_advances; simp)

definition parseOptionalEngine :: "unit parser" where
  "parseOptionalEngine =
     bindP (tryMatchP TkEngine) (\<lambda>found.
       ifP found
         (bindP (tryMatchP TkEq) (\<lambda>_.
          bindP (peekTypeAt 0) (\<lambda>next.
          bindP (ifP (next = Some TkIdentifier)
                   (bindP (consumeToken TkIdentifier ''engine'') (\<lambda>_. returnP ()))
                   (returnP ())) (\<lambda>_.
          bindP (tryMatchP TkLParen) (\<lambda>opened.
            ifP opened skipBalancedParens (returnP ()))))))
         (returnP ()))"

lemma parseOptionalEngine_advances [simp]: "advances st (snd (parseOptionalEngine st))"
  unfolding parseOptionalEngine_def
  by (intro bindP_advances ifP_advances; simp)

definition parseOptionalPartitionBy :: "string option parser" where
  "parseOptionalPartitionBy =
     bindP (tryMatchP TkPartition) (\<lambda>found.
       ifP found
         (bindP (consumeToken TkBy ''BY'') (\<lambda>_.
          bindP (captureExpressionUntil [TkOrder]) (\<lambda>expr. returnP (Some expr))))
         (returnP None))"

lemma parseOptionalPartitionBy_advances [simp]: "advances st (snd (parseOptionalPartitionBy st))"
  unfolding parseOptionalPartitionBy_def
  by (intro bindP_advances ifP_advances; simp)

definition parseOptionalOrderBy :: "string option parser" where
  "parseOptionalOrderBy =
     bindP (tryMatchP TkOrder) (\<lambda>found.
       ifP found
         (bindP (consumeToken TkBy ''BY'') (\<lambda>_.
          bindP (captureExpressionUntil [TkAs]) (\<lambda>expr. returnP (Some expr))))
         (returnP None))"

lemma parseOptionalOrderBy_advances [simp]: "advances st (snd (parseOptionalOrderBy st))"
  unfolding parseOptionalOrderBy_def
  by (intro bindP_advances ifP_advances; simp)


text \<open>
  \<open>parseFirstFunctionArg\<close>. \<open>firstArg_body\<close> is one pass through the body of its
  \<open>while\<close> loop for the token \<open>tt\<close> at the current position; it returns the new
  values of \<open>depth\<close> and \<open>srcName\<close>.
\<close>

definition firstArg_body ::
  "nat \<Rightarrow> nat \<Rightarrow> string option \<Rightarrow> Token \<Rightarrow> (nat \<times> string option) parser" where
  "firstArg_body startPos depth srcName tt =
     (if tokenType tt = TkLParen then bindP advanceP (\<lambda>_. returnP (Suc depth, srcName))
      else if tokenType tt = TkRParen then bindP advanceP (\<lambda>_. returnP (depth - 1, srcName))
      else if tokenType tt = TkIdentifier then
        bindP (consumeToken TkIdentifier ''identifier'') (\<lambda>inner1.
        bindP (peekTypeAt 0) (\<lambda>next.
          ifP (next = Some TkLParen)
            (returnP (depth, srcName))
            (bindP (tryMatchP TkDot) (\<lambda>dotted.
             bindP (ifP dotted
                      (bindP (consumeToken TkIdentifier ''identifier'') (\<lambda>t. returnP (tok_image t)))
                      (returnP (tok_image inner1))) (\<lambda>inner.
             returnP (depth, if truthy srcName then srcName else Some inner))))))
      else
        bindP advanceP (\<lambda>_.
        bindP getPosition (\<lambda>pos.
          ifP (pos - startPos > 200)
            (throwP (ParseError ''Function argument parsing limit exceeded''))
            (returnP (depth, srcName)))))"

lemma bindP_progress:
  assumes "m st = (Inr x, s1)" "advances st s1" "ps_position st < ps_position s1"
    and "advances s1 (snd (f x s1))"
  shows "advances st (snd (bindP m f st)) \<and> ps_position st < ps_position (snd (bindP m f st))"
  using assms by (auto simp: bindP_def advances_def)

lemma consumeToken_peek:
  "peekToken st 0 = Some t \<Longrightarrow> tokenType t = tt \<Longrightarrow> consumeToken tt ex st = (Inr t, advance st)"
  by (simp add: consumeToken_def)

lemma peek_not_end: "peekToken st 0 = Some t \<Longrightarrow> ps_position st < ps_maxTokens st"
  by (simp add: peekToken_def Let_def split: if_splits)

lemma advance_strict: "ps_position st < ps_position (advance st)"
  by (simp add: advance_def)

lemma firstArg_body_progress:
  assumes "peekToken st 0 = Some tt"
  shows "advances st (snd (firstArg_body startPos depth srcName tt st)) \<and>
         ps_position st < ps_position (snd (firstArg_body startPos depth srcName tt st))"
proof -
  have adv: "advanceP st = (Inr (), advance st)"
    by (simp add: advanceP_def)
  consider "tokenType tt = TkLParen" | "tokenType tt = TkRParen" | "tokenType tt = TkIdentifier"
    | "tokenType tt \<noteq> TkLParen" "tokenType tt \<noteq> TkRParen" "tokenType tt \<noteq> TkIdentifier"
    by blast
  then show ?thesis
  proof cases
    case 1
    then show ?thesis
      unfolding firstArg_body_def
      by simp (rule bindP_progress[where m = advanceP, OF adv]; simp add: advance_strict)
  next
    case 2
    then show ?thesis
      unfolding firstArg_body_def
      by simp (rule bindP_progress[where m = advanceP, OF adv]; simp add: advance_strict)
  next
    case 3
    then show ?thesis
      unfolding firstArg_body_def
      by simp
         (rule bindP_progress[where m = "consumeToken TkIdentifier ''identifier''",
            OF consumeToken_peek[OF assms 3]];
          (simp add: advance_strict | (intro bindP_advances ifP_advances; simp)))
  next
    case 4
    then show ?thesis
      unfolding firstArg_body_def
      by simp
         (rule bindP_progress[where m = advanceP, OF adv];
          (simp add: advance_strict | (intro bindP_advances ifP_advances; simp)))
  qed
qed

function firstArg_loop :: "nat \<Rightarrow> nat \<Rightarrow> string option \<Rightarrow> string option parser" where
  "firstArg_loop startPos depth srcName st =
     (if isAtEnd st \<or> depth = 0 then (Inr srcName, st)
      else case peekToken st 0 of
        None \<Rightarrow> (Inr srcName, st)
      | Some tt \<Rightarrow>
          bindP (firstArg_body startPos depth srcName tt) (\<lambda>next.
            firstArg_loop startPos (fst next) (snd next)) st)"
  by pat_completeness auto
termination
proof (relation "measure (\<lambda>(startPos, depth, srcName, st). ps_maxTokens st - ps_position st)", goal_cases)
  case 1
  show ?case by simp
next
  case (2 startPos depth srcName st tt x s')
  from firstArg_body_progress[OF 2(2), of startPos depth srcName] 2(3) peek_not_end[OF 2(2)]
  show ?case
    by (auto simp: advances_def)
qed

declare firstArg_loop.simps [simp del]

lemma firstArg_loop_advances [simp]:
  "advances st (snd (firstArg_loop startPos depth srcName st))"
proof (induct startPos depth srcName st rule: firstArg_loop.induct)
  case (1 startPos depth srcName st)
  show ?case
    unfolding firstArg_loop.simps[of startPos depth srcName st]
    by (auto split: option.splits intro!: bindP_advances 1 simp: firstArg_body_progress)
qed

definition parseFirstFunctionArg :: "string option parser" where
  "parseFirstFunctionArg =
     bindP getPosition (\<lambda>startPos. firstArg_loop startPos 1 None)"

lemma parseFirstFunctionArg_advances [simp]: "advances st (snd (parseFirstFunctionArg st))"
  unfolding parseFirstFunctionArg_def
  by (intro bindP_advances ifP_advances; simp)


text \<open>\<open>parseSelectItem\<close>\<close>

definition parseSelectItem :: "SelectItem parser" where
  "parseSelectItem =
     bindP (consumeToken TkIdentifier ''identifier'') (\<lambda>id1.
     bindP (tryMatchP TkDot) (\<lambda>dotted.
     bindP (ifP dotted
              (bindP (consumeToken TkIdentifier ''identifier'') (\<lambda>id2. returnP (tok_image id2)))
              (returnP (tok_image id1))) (\<lambda>name.
     bindP (tryMatchP TkLParen) (\<lambda>called.
     bindP (ifP called
              (bindP parseFirstFunctionArg (\<lambda>srcName. returnP (Some (tok_image id1), srcName)))
              (returnP (None, None))) (\<lambda>func_src.
     bindP (tryMatchP TkAs) (\<lambda>aliased.
     bindP (ifP aliased
              (bindP (consumeToken TkIdentifier ''alias'') (\<lambda>a. returnP (Some (tok_image a))))
              (returnP None)) (\<lambda>alias.
     returnP \<lparr>si_name = name,
              si_alias = alias,
              si_srcName = Some (case snd func_src of None \<Rightarrow> name | Some srcName \<Rightarrow> srcName),
              si_func = fst func_src\<rparr>)))))))"

lemma parseSelectItem_advances [simp]: "advances st (snd (parseSelectItem st))"
  unfolding parseSelectItem_def
  by (intro bindP_advances ifP_advances; simp)

lemma parseSelectItem_progress:
  assumes "peekToken st 0 = Some t" "tokenType t = TkIdentifier"
  shows "advances st (snd (parseSelectItem st)) \<and>
         ps_position st < ps_position (snd (parseSelectItem st))"
  unfolding parseSelectItem_def
  by (rule bindP_progress[where m = "consumeToken TkIdentifier ''identifier''",
        OF consumeToken_peek[OF assms]];
      (simp add: advance_strict | (intro bindP_advances ifP_advances; simp)))

text \<open>
  \<open>parseSelectList\<close>. \<open>selectList_body\<close> is one pass through the body of its
  \<open>while\<close> loop for a token \<open>t\<close> other than \<open>FROM\<close>; it returns the new \<open>items\<close>
  and \<open>itemCount\<close>.
\<close>

definition selectList_body ::
  "SelectItem list \<Rightarrow> nat \<Rightarrow> Token \<Rightarrow> (SelectItem list \<times> nat) parser" where
  "selectList_body items itemCount t =
     (if tokenType t = TkComma then bindP advanceP (\<lambda>_. returnP (items, itemCount))
      else if tokenType t = TkIdentifier then
        bindP parseSelectItem (\<lambda>item. returnP (items @ [item], Suc itemCount))
      else bindP advanceP (\<lambda>_. returnP (items, itemCount)))"

lemma bindP_returnP_snd: "snd (bindP m (\<lambda>x. returnP (g x)) st) = snd (m st)"
  by (auto simp: bindP_def returnP_def split: prod.splits sum.splits)

lemma selectList_body_progress:
  assumes "peekToken st 0 = Some t"
  shows "advances st (snd (selectList_body items itemCount t st)) \<and>
         ps_position st < ps_position (snd (selectList_body items itemCount t st))"
  using parseSelectItem_progress[OF assms]
  by (simp add: selectList_body_def bindP_returnP_snd advanceP_def advance_strict)

function selectList_loop :: "SelectItem list \<Rightarrow> nat \<Rightarrow> SelectItem list parser" where
  "selectList_loop items itemCount st =
     (if \<not> isAtEnd st \<and> itemCount < 100 then
        (case peekToken st 0 of
           None \<Rightarrow> (Inr items, st)
         | Some t \<Rightarrow>
             if tokenType t = TkFrom then (Inr items, st)
             else bindP (selectList_body items itemCount t) (\<lambda>next.
                    selectList_loop (fst next) (snd next)) st)
      else (Inr items, st))"
  by pat_completeness auto
termination
proof (relation "measure (\<lambda>(items, itemCount, st). ps_maxTokens st - ps_position st)", goal_cases)
  case 1
  show ?case by simp
next
  case (2 items itemCount st t x s')
  from selectList_body_progress[OF 2(2), of items itemCount] 2(4) peek_not_end[OF 2(2)]
  show ?case
    by (auto simp: advances_def)
qed

declare selectList_loop.simps [simp del]

lemma selectList_loop_advances [simp]:
  "advances st (snd (selectList_loop items itemCount st))"
proof (induct items itemCount st rule: selectList_loop.induct)
  case (1 items itemCount st)
  show ?case
    unfolding selectList_loop.simps[of items itemCount st]
    by (auto split: option.splits intro!: bindP_advances 1 simp: selectList_body_progress)
qed

definition parseSelectList :: "SelectItem list parser" where
  "parseSelectList = selectList_loop [] 0"

lemma parseSelectList_advances [simp]: "advances st (snd (parseSelectList st))"
  by (simp add: parseSelectList_def)

text \<open>\<open>parseCTEBlockOnly\<close>: the content of the CTE is skipped, not parsed.\<close>

definition parseCTEBlockOnly :: "MvCte parser" where
  "parseCTEBlockOnly =
     bindP (consumeToken TkIdentifier ''CTE name'') (\<lambda>cteName.
     bindP (consumeToken TkAs ''AS'') (\<lambda>_.
     bindP (consumeToken TkLParen ''('') (\<lambda>_.
     bindP getPosition (\<lambda>startPos.
     bindP (balanced_loop 5000 ''CTE content parsing limit exceeded'' startPos 1) (\<lambda>_.
     returnP \<lparr>cte_name = tok_image cteName, cte_src = None, cte_columns = []\<rparr>)))))"

lemma parseCTEBlockOnly_advances [simp]: "advances st (snd (parseCTEBlockOnly st))"
  unfolding parseCTEBlockOnly_def
  by (intro bindP_advances ifP_advances; simp)

text \<open>\<open>skipWithNamedExpressions\<close>\<close>

function with_loop :: "nat \<Rightarrow> nat \<Rightarrow> unit parser" where
  "with_loop startPos depth st =
     (if isAtEnd st then (Inr (), st)
      else case peekToken st 0 of
        None \<Rightarrow> (Inr (), st)
      | Some t \<Rightarrow>
          if tokenType t = TkLParen then with_loop startPos (Suc depth) (advance st)
          else if tokenType t = TkRParen then with_loop startPos (depth - 1) (advance st)
          else if tokenType t = TkSelect \<and> depth = 0 then (Inr (), st)
          else if ps_position (advance st) - startPos > 2000
          then (Inl (ParseError ''WITH expressions parsing limit exceeded''), advance st)
          else with_loop startPos depth (advance st))"
  by pat_completeness auto
termination
  by (relation "measure (\<lambda>(startPos, depth, st). ps_maxTokens st - ps_position st)")
     (auto simp: isAtEnd_def advance_def)

declare with_loop.simps [simp del]

lemma with_loop_advances [simp]: "advances st (snd (with_loop startPos depth st))"
proof (induct startPos depth st rule: with_loop.induct)
  case (1 startPos depth st)
  show ?case
    using 1 unfolding with_loop.simps[of startPos depth st]
    by (auto simp: advances_def advance_def split: option.splits)
qed

definition skipWithNamedExpressions :: "unit parser" where
  "skipWithNamedExpressions = bindP getPosition (\<lambda>startPos. with_loop startPos 0)"

lemma skipWithNamedExpressions_advances [simp]: "advances st (snd (skipWithNamedExpressions st))"
  unfolding skipWithNamedExpressions_def
  by (intro bindP_advances ifP_advances; simp)

text \<open>\<open>parseMaterializedViewBody\<close>\<close>

definition unknownColumn :: "SelectItem \<Rightarrow> ColumnAst" where
  "unknownColumn sc =
     \<lparr>col_name = (case si_alias sc of None \<Rightarrow> si_name sc | Some alias \<Rightarrow> alias),
      col_type = TypeAst ''Unknown'' [],
      col_rawType = ''Unknown'',
      col_comment = None,
      col_default = None\<rparr>"

definition parseWithClause :: "MvCte option parser" where
  "parseWithClause =
     bindP (peekTypeAt 0) (\<lambda>next.
       ifP (next = Some TkWith)
         (bindP advanceP (\<lambda>_.
          bindP (peekTypeAt 0) (\<lambda>t0.
          bindP (peekTypeAt 1) (\<lambda>t1.
          bindP (peekTypeAt 2) (\<lambda>t2.
            ifP (t0 = Some TkIdentifier \<and> t1 = Some TkAs \<and> t2 = Some TkLParen)
              (bindP parseCTEBlockOnly (\<lambda>cte. returnP (Some cte)))
              (bindP skipWithNamedExpressions (\<lambda>_. returnP None)))))))
         (returnP None))"

lemma parseWithClause_advances [simp]: "advances st (snd (parseWithClause st))"
  unfolding parseWithClause_def
  by (intro bindP_advances ifP_advances; simp)

definition parseMaterializedViewBody ::
  "string \<Rightarrow> string option \<Rightarrow> string option \<Rightarrow> TableAst parser" where
  "parseMaterializedViewBody name partitionBy orderBy =
     bindP (tryMatchP TkAs) (\<lambda>found.
     bindP (ifP found (returnP ()) (skipToToken TkAs)) (\<lambda>_.
     bindP parseWithClause (\<lambda>cteInfo.
     bindP (peekTypeAt 0) (\<lambda>next.
     bindP (ifP (next \<noteq> Some TkSelect) (skipToToken TkSelect) (returnP ())) (\<lambda>_.
     bindP (peekTypeAt 0) (\<lambda>next.
     bindP (ifP (next = Some TkSelect) advanceP (returnP ())) (\<lambda>_.
     bindP parseSelectList (\<lambda>selectCols.
     bindP (tryMatchP TkFrom) (\<lambda>has_from.
     bindP (ifP has_from
              (bindP parseQualifiedName (\<lambda>src. returnP (Some src)))
              (returnP None)) (\<lambda>src.
     returnP \<lparr>tbl_name = name,
              tbl_columns = map unknownColumn selectCols,
              tbl_partitionBy = partitionBy,
              tbl_orderBy = orderBy,
              tbl_mvFrom = src,
              tbl_mvSelect = Some selectCols,
              tbl_mvCte = cteInfo\<rparr>))))))))))"

lemma parseMaterializedViewBody_advances [simp]:
  "advances st (snd (parseMaterializedViewBody name partitionBy orderBy st))"
  unfolding parseMaterializedViewBody_def
  by (intro bindP_advances ifP_advances; simp)

text \<open>\<open>createTable\<close>\<close>

definition createTable :: "TableAst parser" where
  "createTable =
     bindP (consumeToken TkCreate ''CREATE'') (\<lambda>_.
     bindP parseTableType (\<lambda>isMV.
     bindP parseOptionalIfNotExists (\<lambda>_.
     bindP parseQualifiedName (\<lambda>name.
     bindP parseOptionalColumns (\<lambda>columns.
     bindP parseOptionalEngine (\<lambda>_.
     bindP parseOptionalPartitionBy (\<lambda>partitionBy.
     bindP parseOptionalOrderBy (\<lambda>orderBy.
       ifP (isMV \<and> columns = [])
         (parseMaterializedViewBody name partitionBy orderBy)
         (returnP \<lparr>tbl_name = name,
                   tbl_columns = columns,
                   tbl_partitionBy = partitionBy,
                   tbl_orderBy = orderBy,
                   tbl_mvFrom = None,
                   tbl_mvSelect = None,
                   tbl_mvCte = None\<rparr>)))))))))"

lemma createTable_advances [simp]: "advances st (snd (createTable st))"
  unfolding createTable_def
  by (intro bindP_advances ifP_advances; simp)

lemma createTable_progress:
  assumes "peekToken st 0 = Some t" "tokenType t = TkCreate"
  shows "advances st (snd (createTable st)) \<and>
         ps_position st < ps_position (snd (createTable st))"
  unfolding createTable_def
  by (rule bindP_progress[where m = "consumeToken TkCreate ''CREATE''",
        OF consumeToken_peek[OF assms]];
      (simp add: advance_strict | (intro bindP_advances ifP_advances; simp)))

text \<open>
  The parser's \<open>parse\<close>. \<open>skipToCreate\<close> is the loop
  \<open>while (!p.isAtEnd() && peekToken(state)?.tokenType !== Create) state.position++;\<close>,
  which runs before each statement and again after a statement that threw.
\<close>

function skipToCreate :: "ParserState \<Rightarrow> ParserState" where
  "skipToCreate st =
     (if \<not> isAtEnd st \<and> peekType st \<noteq> Some TkCreate then skipToCreate (advance st) else st)"
  by pat_completeness auto
termination
  by (relation "measure (\<lambda>st. ps_maxTokens st - ps_position st)")
     (auto simp: isAtEnd_def advance_def)

declare skipToCreate.simps [simp del]

lemma skipToCreate_advances [simp]: "advances st (skipToCreate st)"
proof (induct st rule: skipToCreate.induct)
  case (1 st)
  show ?case
    using 1 unfolding skipToCreate.simps[of st]
    by (auto simp: advances_def advance_def)
qed

lemma skipToCreate_stops:
  "\<not> isAtEnd (skipToCreate st) \<Longrightarrow> peekType (skipToCreate st) = Some TkCreate"
proof (induct st rule: skipToCreate.induct)
  case (1 st)
  then show ?case
    unfolding skipToCreate.simps[of st]
    by (auto split: if_splits)
qed

function parse_loop :: "nat \<Rightarrow> TableAst list \<Rightarrow> ParserState \<Rightarrow> TableAst list" where
  "parse_loop tableCount tables st =
     (if \<not> isAtEnd st \<and> tableCount < 50 then
        (if isAtEnd (skipToCreate st) then tables
         else case createTable (skipToCreate st) of
           (Inr table, s2) \<Rightarrow> parse_loop (Suc tableCount) (tables @ [table]) s2
         | (Inl e, s2) \<Rightarrow> parse_loop tableCount tables (skipToCreate s2))
      else tables)"
  by pat_completeness auto
termination
proof (relation "measure (\<lambda>(tableCount, tables, st). ps_maxTokens st - ps_position st)", goal_cases)
  case 1
  show ?case by simp
next
  case (2 tableCount tables st x s2 e)
  obtain t where t: "peekToken (skipToCreate st) 0 = Some t" "tokenType t = TkCreate"
    using skipToCreate_stops[OF 2(2)] by (auto simp: peekType_def)
  have s2: "snd (createTable (skipToCreate st)) = s2"
    using 2(3) by (metis snd_conv)
  have "advances s2 (skipToCreate s2)"
    by simp
  then have after: "ps_maxTokens (skipToCreate s2) = ps_maxTokens s2"
    "ps_position s2 \<le> ps_position (skipToCreate s2)"
    unfolding advances_def by auto
  from createTable_progress[OF t] skipToCreate_advances[of st] peek_not_end[OF t(1)] after
  show ?case
    unfolding s2
    by (auto simp: advances_def)
next
  case (3 tableCount tables st x s2 table)
  obtain t where t: "peekToken (skipToCreate st) 0 = Some t" "tokenType t = TkCreate"
    using skipToCreate_stops[OF 3(2)] by (auto simp: peekType_def)
  have s2: "snd (createTable (skipToCreate st)) = s2"
    using 3(3) by (metis snd_conv)
  have "advances s2 (skipToCreate s2)"
    by simp
  then have after: "ps_maxTokens (skipToCreate s2) = ps_maxTokens s2"
    "ps_position s2 \<le> ps_position (skipToCreate s2)"
    unfolding advances_def by auto
  from createTable_progress[OF t] skipToCreate_advances[of st] peek_not_end[OF t(1)] after
  show ?case
    unfolding s2
    by (auto simp: advances_def)
qed

declare parse_loop.simps [simp del]

definition parse_lexed :: "LexResult \<Rightarrow> error + TableAst list" where
  "parse_lexed lexed =
     (if lex_errors lexed \<noteq> [] then Inl LexingFailed
      else case createParserState (lex_tokens lexed) of
        Inl e \<Rightarrow> Inl e
      | Inr state \<Rightarrow> Inr (parse_loop 0 [] state))"

definition parser_parse :: "string \<Rightarrow> error + TableAst list" where
  "parser_parse ddl = parse_lexed (tokenize ddl)"

text \<open>
  \<open>parse\<close> of \<open>index.ts\<close>: each kept statement goes through the parser on its own,
  inside \<open>try { ... } catch { continue; }\<close>.
\<close>

definition parse_parts :: "string list \<Rightarrow> error + TableAst list" where
  "parse_parts parts =
     (if parts = [] then Inr []
      else Inr (foldl (\<lambda>tables stmt.
                  case parser_parse stmt of
                    Inl e \<Rightarrow> tables
                  | Inr arr \<Rightarrow> if arr \<noteq> [] then tables @ arr else tables) [] parts))"

definition parse :: "string \<Rightarrow> error + TableAst list" where
  "parse ddl = parse_parts (splitStatements (filterStatements ddl))"

section \<open>Properties of statements and example inputs of the front end\<close>

text \<open>
  A statement as the filter passes it on: not empty, no white space at either end,
  no semicolon.
\<close>

definition clean :: "string \<Rightarrow> bool" where
  "clean k = (k \<noteq> [] \<and> \<not> is_js_space (hd k) \<and> \<not> is_js_space (last k) \<and> CHR '';'' \<notin> set k)"





text \<open>A column definition with a vertical tab (\<open>\v\<close>, code 11) between name and type.\<close>

definition vertical_tab_ddl :: string where
  "vertical_tab_ddl = ''CREATE TABLE t (a'' @ [CHR 0x0B] @ ''Int8)''"










section \<open>Lemmas on the type mapping\<close>

declare walk_depth.simps [simp del]
declare mapTypeAstToTs.simps [simp del]

lemma max_list_ge: "x \<in> set xs \<Longrightarrow> x \<le> max_list xs"
  by (induction xs) auto

lemma max_list_le: "(\<And>x. x \<in> set xs \<Longrightarrow> x \<le> b) \<Longrightarrow> max_list xs \<le> b"
  by (induction xs) auto

lemma max_list_witness: "xs \<noteq> [] \<Longrightarrow> max_list xs \<in> set xs"
proof (induction xs)
  case Nil then show ?case by simp
next
  case (Cons x xs)
  show ?case
  proof (cases "xs = []")
    case True then show ?thesis by simp
  next
    case False
    with Cons have "max_list xs \<in> set xs" by simp
    then show ?thesis by (simp add: max_def)
  qed
qed

lemma sequence_err_Inl: "sequence_err xs = Inl e \<Longrightarrow> Inl e \<in> set xs"
  by (induction xs rule: sequence_err.induct) (auto split: sum.splits)

lemma sequence_err_map_Inr: "sequence_err (map Inr ys) = Inr ys"
  by (induction ys) auto


lemma sequence_err_all_Inr: "(\<And>x. x \<in> set xs \<Longrightarrow> \<exists>y. x = Inr y) \<Longrightarrow> \<exists>ys. sequence_err xs = Inr ys"
proof (induction xs rule: sequence_err.induct)
  case 1 show ?case by simp
next
  case (2 e rs) then show ?case by force
next
  case (3 x rs)
  then have "\<exists>ys. sequence_err rs = Inr ys" by auto
  then show ?case by auto
qed

lemma sequence_err_some_Inl: "Inl e \<in> set xs \<Longrightarrow> \<exists>e'. sequence_err xs = Inl e'"
  by (induction xs rule: sequence_err.induct) (auto split: sum.splits)

text \<open>Induction over the depth counter\<close>
lemma depth_induct [case_names step]:
  assumes step: "\<And>t depth. (\<And>t'. depth \<le> MAX_TYPE_DEPTH \<Longrightarrow> P t' (Suc depth)) \<Longrightarrow> P t depth"
  shows "P t depth"
proof (induction "Suc MAX_TYPE_DEPTH - depth" arbitrary: t depth)
  case 0
  show ?case
  proof (rule step)
    fix t' assume "depth \<le> MAX_TYPE_DEPTH"
    with 0 show "P t' (Suc depth)" by simp
  qed
next
  case (Suc k)
  show ?case
  proof (rule step)
    fix t' assume "depth \<le> MAX_TYPE_DEPTH"
    with Suc(2) have "k = Suc MAX_TYPE_DEPTH - Suc depth" by simp
    then show "P t' (Suc depth)" by (rule Suc(1))
  qed
qed

lemma walk_depth_first: "ty_name t = ''Nullable'' \<or> ty_name t = ''LowCardinality'' \<or> ty_name t = ''Array''
   \<Longrightarrow> walk_depth t = Suc (walk_depth (firstTypeArg t))"
  by (subst walk_depth.simps) simp

lemma walk_depth_map: "ty_name t = ''Map'' \<Longrightarrow> walk_depth t = Suc (walk_depth (secondTypeArg t))"
  by (subst walk_depth.simps) simp

lemma walk_depth_tuple: "ty_name t = ''Tuple'' \<Longrightarrow>
   walk_depth t = max_list (map (\<lambda>a. Suc (walk_depth (toTypeOrUnknown (Some a)))) (ty_args t))"
  by (subst walk_depth.simps) simp

lemma walk_depth_leaf: "\<not> is_wrapper (ty_name t) \<Longrightarrow> walk_depth t = 0"
  by (subst walk_depth.simps) (simp add: is_wrapper_def)

lemma tuple_arg_depth:
  "ty_name t = ''Tuple'' \<Longrightarrow> a \<in> set (ty_args t) \<Longrightarrow>
     Suc (walk_depth (toTypeOrUnknown (Some a))) \<le> walk_depth t"
  by (simp add: walk_depth_tuple max_list_ge)

lemma no_depth_error:
  "depth + walk_depth t \<le> MAX_TYPE_DEPTH \<Longrightarrow> mapTypeAstToTs t opts depth \<noteq> Inl DepthExceeded"
proof (induction t depth rule: depth_induct)
  case (step t depth)
  have d: "depth \<le> MAX_TYPE_DEPTH" using step.prems by simp
  have IH: "\<And>t'. Suc depth + walk_depth t' \<le> MAX_TYPE_DEPTH \<Longrightarrow> mapTypeAstToTs t' opts (Suc depth) \<noteq> Inl DepthExceeded"
    using step.IH d by blast
  show ?case
  proof (cases "validateTypeAst t")
    case (Some e)
    then have "e \<noteq> DepthExceeded" by (auto simp: validateTypeAst_def split: if_splits)
    with Some d show ?thesis by (subst mapTypeAstToTs.simps) simp
  next
    case None
    show ?thesis
    proof (cases "pluginResult t opts")
      case (Some r)
      with None d show ?thesis by (subst mapTypeAstToTs.simps) simp
    next
      case pn: None
      consider (first) "ty_name t = ''Nullable'' \<or> ty_name t = ''LowCardinality'' \<or> ty_name t = ''Array''"
        | (tuple) "ty_name t = ''Tuple''" | (map) "ty_name t = ''Map''" | (leaf) "\<not> is_wrapper (ty_name t)"
        by (auto simp: is_wrapper_def)
      then show ?thesis
      proof cases
        case first
        then have "Suc depth + walk_depth (firstTypeArg t) \<le> MAX_TYPE_DEPTH"
          using step.prems by (simp add: walk_depth_first)
        from IH[OF this] first None pn d show ?thesis
          by (subst mapTypeAstToTs.simps) (auto split: sum.splits)
      next
        case map
        then have "Suc depth + walk_depth (secondTypeArg t) \<le> MAX_TYPE_DEPTH"
          using step.prems by (simp add: walk_depth_map)
        from IH[OF this] map None pn d show ?thesis
          by (subst mapTypeAstToTs.simps) (auto split: sum.splits)
      next
        case leaf
        have "mapLeafType t opts \<noteq> Inl DepthExceeded"
          by (auto simp: mapLeafType_def handleUnknownType_def Let_def)
        with leaf None pn d show ?thesis
          by (subst mapTypeAstToTs.simps) (auto simp: is_wrapper_def)
      next
        case tuple
        have el: "\<And>i a. (i, a) \<in> set (enumerate 0 (take (min (length (ty_args t)) MAX_TUPLE_ELEMENTS) (ty_args t)))
            \<Longrightarrow> mapTypeAstToTs (toTypeOrUnknown (Some a)) opts (Suc depth) \<noteq> Inl DepthExceeded"
        proof -
          fix i a assume "(i, a) \<in> set (enumerate 0 (take (min (length (ty_args t)) MAX_TUPLE_ELEMENTS) (ty_args t)))"
          then have "a \<in> set (ty_args t)"
            by (auto simp: in_set_enumerate_eq dest: in_set_takeD)
          then have "Suc (walk_depth (toTypeOrUnknown (Some a))) \<le> walk_depth t"
            using tuple by (rule tuple_arg_depth[rotated])
          then have "Suc depth + walk_depth (toTypeOrUnknown (Some a)) \<le> MAX_TYPE_DEPTH"
            using step.prems by simp
          then show "mapTypeAstToTs (toTypeOrUnknown (Some a)) opts (Suc depth) \<noteq> Inl DepthExceeded"
            by (rule IH)
        qed
        show ?thesis
        proof
          assume a: "mapTypeAstToTs t opts depth = Inl DepthExceeded"
          then have "sequence_err
                       (map (\<lambda>(i, arg).
                               case mapTypeAstToTs (toTypeOrUnknown (Some arg)) opts (depth + 1) of
                                 Inl e \<Rightarrow> Inl e
                               | Inr argType \<Rightarrow> Inr (''_'' @ showNat i @ '': '' @ argType @ '';''))
                          (enumerate 0 (take (min (length (ty_args t)) MAX_TUPLE_ELEMENTS) (ty_args t)))) = Inl DepthExceeded"
            using tuple None pn d by (subst (asm) mapTypeAstToTs.simps) (auto split: sum.splits)
          from sequence_err_Inl[OF this] obtain i a where
            "(i, a) \<in> set (enumerate 0 (take (min (length (ty_args t)) MAX_TUPLE_ELEMENTS) (ty_args t)))"
            "mapTypeAstToTs (toTypeOrUnknown (Some a)) opts (Suc depth) = Inl DepthExceeded"
            by (auto split: sum.splits)
          with el show False by blast
        qed
      qed
    qed
  qed
qed


lemma nodes_ok_validate: "nodes_ok t \<Longrightarrow> validateTypeAst t = None"
  by (cases t) (simp add: validateTypeAst_def)

lemma nodes_ok_arg: "nodes_ok t \<Longrightarrow> a \<in> set (ty_args t) \<Longrightarrow> nodes_ok (toTypeOrUnknown (Some a))"
  by (cases t; cases a) (auto simp: toTypeOrUnknown_def list_all_iff MAX_TUPLE_ELEMENTS_def)

lemma nodes_ok_nth: "nodes_ok t \<Longrightarrow> nodes_ok (toTypeOrUnknown (nth_opt (ty_args t) i))"
proof (cases "i < length (ty_args t)")
  case True
  assume ok: "nodes_ok t"
  from True have "ty_args t ! i \<in> set (ty_args t)" by simp
  from nodes_ok_arg[OF ok this] True show ?thesis by (simp add: nth_opt_def)
next
  case False
  then show ?thesis by (simp add: nth_opt_def toTypeOrUnknown_def MAX_TUPLE_ELEMENTS_def)
qed

lemma nodes_ok_first: "nodes_ok t \<Longrightarrow> nodes_ok (firstTypeArg t)"
  unfolding firstTypeArg_def by (rule nodes_ok_nth)

lemma nodes_ok_second: "nodes_ok t \<Longrightarrow> nodes_ok (secondTypeArg t)"
  unfolding secondTypeArg_def by (rule nodes_ok_nth)

lemma leaf_no_error: "\<not> failOnUnknown opts \<Longrightarrow> \<exists>s. mapLeafType t opts = Inr s"
  by (auto simp: mapLeafType_def handleUnknownType_def Let_def)

lemma only_depth_error:
  "nodes_ok t \<Longrightarrow> \<not> failOnUnknown opts \<Longrightarrow> mapTypeAstToTs t opts depth = Inl e \<Longrightarrow> e = DepthExceeded"
proof (induction t depth arbitrary: e rule: depth_induct)
  case (step t depth)
  note v = nodes_ok_validate[OF step.prems(1)]
  show ?case
  proof (cases "depth \<le> MAX_TYPE_DEPTH")
    case False
    with step.prems(3) show ?thesis by (subst (asm) mapTypeAstToTs.simps) simp
  next
    case d: True
    have IH: "\<And>t' e'. nodes_ok t' \<Longrightarrow> mapTypeAstToTs t' opts (Suc depth) = Inl e' \<Longrightarrow> e' = DepthExceeded"
      using step.IH[OF d] step.prems(2) by blast
    show ?thesis
    proof (cases "pluginResult t opts")
      case (Some r)
      with v d step.prems(3) show ?thesis by (subst (asm) mapTypeAstToTs.simps) simp
    next
      case pn: None
      consider (first) "ty_name t = ''Nullable'' \<or> ty_name t = ''LowCardinality'' \<or> ty_name t = ''Array''"
        | (tuple) "ty_name t = ''Tuple''" | (map) "ty_name t = ''Map''" | (leaf) "\<not> is_wrapper (ty_name t)"
        by (auto simp: is_wrapper_def)
      then show ?thesis
      proof cases
        case first
        from step.prems(3) first v pn d
        have "mapTypeAstToTs (firstTypeArg t) opts (Suc depth) = Inl e"
          by (subst (asm) mapTypeAstToTs.simps) (auto split: sum.splits if_splits)
        with IH[OF nodes_ok_first[OF step.prems(1)]] show ?thesis by blast
      next
        case map
        from step.prems(3) map v pn d
        have "mapTypeAstToTs (secondTypeArg t) opts (Suc depth) = Inl e"
          by (subst (asm) mapTypeAstToTs.simps) (auto split: sum.splits if_splits)
        with IH[OF nodes_ok_second[OF step.prems(1)]] show ?thesis by blast
      next
        case leaf
        from step.prems(3) leaf v pn d have "mapLeafType t opts = Inl e"
          by (subst (asm) mapTypeAstToTs.simps) (auto simp: is_wrapper_def)
        with leaf_no_error[OF step.prems(2), of t] show ?thesis by simp
      next
        case tuple
        from step.prems(3) tuple v pn d
        have "sequence_err
                       (map (\<lambda>(i, arg).
                               case mapTypeAstToTs (toTypeOrUnknown (Some arg)) opts (depth + 1) of
                                 Inl e \<Rightarrow> Inl e
                               | Inr argType \<Rightarrow> Inr (''_'' @ showNat i @ '': '' @ argType @ '';''))
                          (enumerate 0 (take (min (length (ty_args t)) MAX_TUPLE_ELEMENTS) (ty_args t)))) = Inl e"
          by (subst (asm) mapTypeAstToTs.simps) (auto split: sum.splits)
        from sequence_err_Inl[OF this] obtain i a where
            ia: "(i, a) \<in> set (enumerate 0 (take (min (length (ty_args t)) MAX_TUPLE_ELEMENTS) (ty_args t)))"
            and m: "mapTypeAstToTs (toTypeOrUnknown (Some a)) opts (Suc depth) = Inl e"
          by (auto split: sum.splits)
        from ia have "a \<in> set (ty_args t)"
          by (auto simp: in_set_enumerate_eq dest: in_set_takeD)
        from IH[OF nodes_ok_arg[OF step.prems(1) this] m] show ?thesis .
      qed
    qed
  qed
qed

lemma returns_string:
  assumes "depth + walk_depth t \<le> MAX_TYPE_DEPTH" "nodes_ok t" "\<not> failOnUnknown opts"
  shows "\<exists>s. mapTypeAstToTs t opts depth = Inr s"
proof (cases "mapTypeAstToTs t opts depth")
  case (Inl e)
  with only_depth_error[OF assms(2,3) Inl] no_depth_error[OF assms(1), of opts] show ?thesis by simp
next
  case (Inr s) then show ?thesis by blast
qed

lemma pluginResult_none: "plugins opts = [] \<Longrightarrow> pluginResult t opts = None"
  by (simp add: pluginResult_def tryPluginMapping_def)

lemma deep_error:
  "MAX_TYPE_DEPTH < depth + walk_depth t \<Longrightarrow> plugins opts = [] \<Longrightarrow> \<exists>e. mapTypeAstToTs t opts depth = Inl e"
proof (induction t depth rule: depth_induct)
  case (step t depth)
  note pn = pluginResult_none[OF step.prems(2), of t]
  show ?case
  proof (cases "depth \<le> MAX_TYPE_DEPTH")
    case False
    then show ?thesis by (subst mapTypeAstToTs.simps) simp
  next
    case d: True
    have IH: "\<And>t'. MAX_TYPE_DEPTH < Suc depth + walk_depth t' \<Longrightarrow> \<exists>e. mapTypeAstToTs t' opts (Suc depth) = Inl e"
      using step.IH[OF d] step.prems(2) by blast
    show ?thesis
    proof (cases "validateTypeAst t")
      case (Some e)
      with d show ?thesis by (subst mapTypeAstToTs.simps) simp
    next
      case v: None
      consider (first) "ty_name t = ''Nullable'' \<or> ty_name t = ''LowCardinality'' \<or> ty_name t = ''Array''"
        | (tuple) "ty_name t = ''Tuple''" | (map) "ty_name t = ''Map''" | (leaf) "\<not> is_wrapper (ty_name t)"
        by (auto simp: is_wrapper_def)
      then show ?thesis
      proof cases
        case first
        then have "MAX_TYPE_DEPTH < Suc depth + walk_depth (firstTypeArg t)"
          using step.prems(1) by (simp add: walk_depth_first)
        from IH[OF this] obtain e where "mapTypeAstToTs (firstTypeArg t) opts (Suc depth) = Inl e" by blast
        with first v pn d show ?thesis
          by (subst mapTypeAstToTs.simps) auto
      next
        case map
        then have "MAX_TYPE_DEPTH < Suc depth + walk_depth (secondTypeArg t)"
          using step.prems(1) by (simp add: walk_depth_map)
        from IH[OF this] obtain e where "mapTypeAstToTs (secondTypeArg t) opts (Suc depth) = Inl e" by blast
        with map v pn d show ?thesis
          by (subst mapTypeAstToTs.simps) auto
      next
        case leaf
        with step.prems(1) d show ?thesis by (simp add: walk_depth_leaf)
      next
        case tuple
        have len: "length (ty_args t) \<le> MAX_TUPLE_ELEMENTS"
          using v by (auto simp: validateTypeAst_def split: if_splits)
        let ?ds = "map (\<lambda>a. Suc (walk_depth (toTypeOrUnknown (Some a)))) (ty_args t)"
        have wd: "walk_depth t = max_list ?ds" using tuple by (rule walk_depth_tuple)
        have "?ds \<noteq> []"
        proof
          assume "?ds = []"
          then have "walk_depth t = 0" using wd by simp
          with step.prems(1) d show False by simp
        qed
        from max_list_witness[OF this] wd obtain a where a: "a \<in> set (ty_args t)"
          and wa: "walk_depth t = Suc (walk_depth (toTypeOrUnknown (Some a)))"
          by auto
        then have "MAX_TYPE_DEPTH < Suc depth + walk_depth (toTypeOrUnknown (Some a))"
          using step.prems(1) by simp
        from IH[OF this] obtain e where e: "mapTypeAstToTs (toTypeOrUnknown (Some a)) opts (Suc depth) = Inl e" by blast
        from a obtain i where i: "i < length (ty_args t)" "ty_args t ! i = a"
          by (auto simp: in_set_conv_nth)
        let ?f = "\<lambda>(i, arg).
                               case mapTypeAstToTs (toTypeOrUnknown (Some arg)) opts (depth + 1) of
                                 Inl e \<Rightarrow> Inl e
                               | Inr argType \<Rightarrow> Inr (''_'' @ showNat i @ '': '' @ argType @ '';'')"
        let ?xs = "enumerate 0 (take (min (length (ty_args t)) MAX_TUPLE_ELEMENTS) (ty_args t))"
        have "(i, a) \<in> set ?xs"
          using i len by (auto simp: in_set_enumerate_eq)
        then have "?f (i, a) \<in> set (map ?f ?xs)" unfolding set_map by (rule imageI)
        then have "Inl e \<in> set (map ?f ?xs)" using e by simp
        from sequence_err_some_Inl[OF this] obtain e' where "sequence_err (map ?f ?xs) = Inl e'" by blast
        with tuple v pn d show ?thesis
          by (subst mapTypeAstToTs.simps) auto
      qed
    qed
  qed
qed

lemma toTypeOrUnknown_depth: "a \<in> set as \<Longrightarrow> type_depth (toTypeOrUnknown (Some a)) \<le> max_list (map arg_depth as)"
proof -
  assume "a \<in> set as"
  then have "arg_depth a \<le> max_list (map arg_depth as)" by (simp add: max_list_ge)
  then show ?thesis by (cases a) (auto simp: toTypeOrUnknown_def)
qed


lemma unknown_leaf_depth [simp]: "walk_depth (TypeAst ''Unknown'' []) = 0"
  by (subst walk_depth.simps) simp

lemma arg_cases:
  obtains (unknown) "toTypeOrUnknown (nth_opt as i) = TypeAst ''Unknown'' []"
  | (member) u where "toTypeOrUnknown (nth_opt as i) = u" "ArgType u \<in> set as"
proof (cases "i < length as")
  case False
  then show ?thesis using unknown by (simp add: nth_opt_def toTypeOrUnknown_def)
next
  case True
  then have m: "as ! i \<in> set as" by simp
  show ?thesis
  proof (cases "as ! i")
    case (ArgType u)
    with True m show ?thesis using member[of u] by (simp add: nth_opt_def toTypeOrUnknown_def)
  qed (use True unknown in \<open>simp_all add: nth_opt_def toTypeOrUnknown_def\<close>)
qed

lemma member_type_depth: "ArgType u \<in> set (ty_args t) \<Longrightarrow> Suc (type_depth u) \<le> type_depth t"
proof -
  assume m: "ArgType u \<in> set (ty_args t)"
  then have "arg_depth (ArgType u) \<in> set (map arg_depth (ty_args t))" by (simp add: image_iff rev_bexI)
  from max_list_ge[OF this] show ?thesis by (cases t) simp
qed

lemma walk_depth_le_type_depth: "walk_depth t \<le> Suc (type_depth t)"
proof (induction t rule: walk_depth.induct)
  case (1 t)
  consider (first) "ty_name t = ''Nullable'' \<or> ty_name t = ''LowCardinality'' \<or> ty_name t = ''Array''"
    | (tuple) "ty_name t = ''Tuple''" | (map) "ty_name t = ''Map''" | (leaf) "\<not> is_wrapper (ty_name t)"
    by (auto simp: is_wrapper_def)
  then show ?case
  proof cases
    case first
    show ?thesis
    proof (cases rule: arg_cases[of "ty_args t" 0])
      case unknown
      with first show ?thesis by (simp add: walk_depth_first firstTypeArg_def)
    next
      case (member u)
      from 1(1)[OF first] member(1) have "walk_depth u \<le> Suc (type_depth u)" by (simp add: firstTypeArg_def)
      with member_type_depth[OF member(2)] first member(1) show ?thesis
        by (simp add: walk_depth_first firstTypeArg_def)
    qed
  next
    case map
    then have nf: "\<not> (ty_name t = ''Nullable'' \<or> ty_name t = ''LowCardinality'' \<or> ty_name t = ''Array'')"
      and nt: "ty_name t \<noteq> ''Tuple''" by auto
    show ?thesis
    proof (cases rule: arg_cases[of "ty_args t" 1])
      case unknown
      with map show ?thesis by (simp add: walk_depth_map secondTypeArg_def)
    next
      case (member u)
      from 1(3)[OF nf nt map] member(1) have "walk_depth u \<le> Suc (type_depth u)" by (simp add: secondTypeArg_def)
      with member_type_depth[OF member(2)] map member(1) show ?thesis
        by (simp add: walk_depth_map secondTypeArg_def)
    qed
  next
    case leaf
    then show ?thesis by (simp add: walk_depth_leaf)
  next
    case tuple
    then have nf: "\<not> (ty_name t = ''Nullable'' \<or> ty_name t = ''LowCardinality'' \<or> ty_name t = ''Array'')"
      by auto
    have "max_list (map (\<lambda>a. Suc (walk_depth (toTypeOrUnknown (Some a)))) (ty_args t)) \<le> Suc (type_depth t)"
    proof (rule max_list_le)
      fix x assume "x \<in> set (map (\<lambda>a. Suc (walk_depth (toTypeOrUnknown (Some a)))) (ty_args t))"
      then obtain a where a: "a \<in> set (ty_args t)" and x: "x = Suc (walk_depth (toTypeOrUnknown (Some a)))"
        by auto
      show "x \<le> Suc (type_depth t)"
      proof (cases a)
        case (ArgType u)
        from 1(2)[OF nf tuple a] ArgType have "walk_depth u \<le> Suc (type_depth u)"
          by (simp add: toTypeOrUnknown_def)
        moreover have "Suc (type_depth u) \<le> type_depth t"
          using a ArgType by (auto intro: member_type_depth)
        ultimately show ?thesis using x ArgType by (simp add: toTypeOrUnknown_def)
      qed (use x in \<open>simp_all add: toTypeOrUnknown_def\<close>)
    qed
    with tuple show ?thesis by (simp add: walk_depth_tuple)
  qed
qed


section \<open>Claims\<close>

text \<open>
  C4, as amended. The mapping is a total function (its termination proof rests on the
  depth counter). Called at depth 0 on a tree whose walked nesting is at most
  \<open>MAX_TYPE_DEPTH\<close> (in particular on every tree of nesting depth below
  \<open>MAX_TYPE_DEPTH\<close>) it never raises the depth error, and it returns a string when
  every node has a non-empty name and at most \<open>MAX_TUPLE_ELEMENTS\<close> arguments and
  \<open>failOnUnknown\<close> is unset. When the walked nesting exceeds \<open>MAX_TYPE_DEPTH\<close> and
  no plugin is configured it returns an error, never a string; that error is the depth
  error when the nodes are valid and \<open>failOnUnknown\<close> is unset.
\<close>

theorem mapTypeAstToTs_depth_bound:
  "(walk_depth t \<le> MAX_TYPE_DEPTH \<longrightarrow> mapTypeAstToTs t opts 0 \<noteq> Inl DepthExceeded) \<and>
   (type_depth t < MAX_TYPE_DEPTH \<longrightarrow> mapTypeAstToTs t opts 0 \<noteq> Inl DepthExceeded) \<and>
   (walk_depth t \<le> MAX_TYPE_DEPTH \<and> nodes_ok t \<and> \<not> failOnUnknown opts \<longrightarrow>
      (\<exists>s. mapTypeAstToTs t opts 0 = Inr s)) \<and>
   (MAX_TYPE_DEPTH < walk_depth t \<and> plugins opts = [] \<longrightarrow>
      (\<exists>e. mapTypeAstToTs t opts 0 = Inl e)) \<and>
   (MAX_TYPE_DEPTH < walk_depth t \<and> plugins opts = [] \<and> nodes_ok t \<and> \<not> failOnUnknown opts \<longrightarrow>
      mapTypeAstToTs t opts 0 = Inl DepthExceeded)"
proof (intro conjI impI)
  assume "walk_depth t \<le> MAX_TYPE_DEPTH"
  then show "mapTypeAstToTs t opts 0 \<noteq> Inl DepthExceeded"
    using no_depth_error[of 0 t opts] by simp
next
  assume "type_depth t < MAX_TYPE_DEPTH"
  with walk_depth_le_type_depth[of t] have "0 + walk_depth t \<le> MAX_TYPE_DEPTH" by simp
  then show "mapTypeAstToTs t opts 0 \<noteq> Inl DepthExceeded"
    by (rule no_depth_error)
next
  assume "walk_depth t \<le> MAX_TYPE_DEPTH \<and> nodes_ok t \<and> \<not> failOnUnknown opts"
  then show "\<exists>s. mapTypeAstToTs t opts 0 = Inr s"
    using returns_string[of 0 t opts] by simp
next
  assume "MAX_TYPE_DEPTH < walk_depth t \<and> plugins opts = []"
  then show "\<exists>e. mapTypeAstToTs t opts 0 = Inl e"
    using deep_error[of 0 t opts] by simp
next
  assume a: "MAX_TYPE_DEPTH < walk_depth t \<and> plugins opts = [] \<and> nodes_ok t \<and> \<not> failOnUnknown opts"
  then obtain e where e: "mapTypeAstToTs t opts 0 = Inl e"
    using deep_error[of 0 t opts] by auto
  with a only_depth_error[of t opts 0 e] show "mapTypeAstToTs t opts 0 = Inl DepthExceeded"
    by simp
qed

theorem mapTypeAstToTs_depth_bound_witness:
  "walk_depth (TypeAst ''Nullable'' [ArgType (TypeAst ''UInt64'' [])]) \<le> MAX_TYPE_DEPTH \<and>
   nodes_ok (TypeAst ''Nullable'' [ArgType (TypeAst ''UInt64'' [])]) \<and>
   \<not> failOnUnknown sample_options \<and>
   (\<exists>s. mapTypeAstToTs (TypeAst ''Nullable'' [ArgType (TypeAst ''UInt64'' [])]) sample_options 0 = Inr s) \<and>
   MAX_TYPE_DEPTH < walk_depth (nest_array 21 (TypeAst ''String'' [])) \<and>
   plugins sample_options = [] \<and>
   nodes_ok (nest_array 21 (TypeAst ''String'' [])) \<and>
   mapTypeAstToTs (nest_array 21 (TypeAst ''String'' [])) sample_options 0 = Inl DepthExceeded"
proof -
  have 1: "walk_depth (TypeAst ''Nullable'' [ArgType (TypeAst ''UInt64'' [])]) \<le> MAX_TYPE_DEPTH"
    by code_simp
  have 2: "nodes_ok (TypeAst ''Nullable'' [ArgType (TypeAst ''UInt64'' [])])"
    by code_simp
  have 3: "\<not> failOnUnknown sample_options" "plugins sample_options = []"
    by (simp_all add: sample_options_def)
  have 4: "MAX_TYPE_DEPTH < walk_depth (nest_array 21 (TypeAst ''String'' []))"
    by code_simp
  have 5: "nodes_ok (nest_array 21 (TypeAst ''String'' []))"
    by code_simp
  from mapTypeAstToTs_depth_bound[of "TypeAst ''Nullable'' [ArgType (TypeAst ''UInt64'' [])]" sample_options] 1 2 3
  have 6: "\<exists>s. mapTypeAstToTs (TypeAst ''Nullable'' [ArgType (TypeAst ''UInt64'' [])]) sample_options 0 = Inr s"
    by blast
  from mapTypeAstToTs_depth_bound[of "nest_array 21 (TypeAst ''String'' [])" sample_options] 3 4 5
  have 7: "mapTypeAstToTs (nest_array 21 (TypeAst ''String'' [])) sample_options 0 = Inl DepthExceeded"
    by blast
  from 1 2 3 4 5 6 7 show ?thesis by blast
qed

text \<open>
  C4 as stated fails in both halves. A \<open>Map\<close> whose key type nests 22 deep is
  mapped to a string, because the key is never entered; and a chain of 21 \<open>Array\<close>
  nodes whose innermost node has no argument has nesting depth 20, yet the \<open>Unknown\<close>
  leaf put in place of the missing argument is visited at depth 21 and raises the
  depth error.
\<close>

theorem depth_claim_counterexample:
  "type_depth (TypeAst ''Map'' [ArgType (nest_array 21 (TypeAst ''String'' [])),
                               ArgType (TypeAst ''String'' [])]) = 22 \<and>
   mapTypeAstToTs (TypeAst ''Map'' [ArgType (nest_array 21 (TypeAst ''String'' [])),
                                   ArgType (TypeAst ''String'' [])]) sample_options 0
     = Inr ''Record<string, string>'' \<and>
   type_depth (nest_array 20 (TypeAst ''Array'' [])) = 20 \<and>
   mapTypeAstToTs (nest_array 20 (TypeAst ''Array'' [])) sample_options 0 = Inl DepthExceeded"
  by code_simp

section \<open>Lemmas on the column resolution\<close>

lemma startsWithD: "startsWith n p \<Longrightarrow> \<exists>r. n = p @ r"
  unfolding startsWith_def by (metis append_take_drop_id)

lemma startsWith_append:
  "startsWith (p @ r) q =
     (if length q \<le> length p then take (length q) p = q
      else take (length p) q = p \<and> startsWith r (drop (length p) q))"
proof (cases "length q \<le> length p")
  case True
  then show ?thesis by (simp add: startsWith_def)
next
  case False
  then have "take (length q) (p @ r) = p @ take (length q - length p) r"
    by simp
  moreover have "(p @ take (length q - length p) r = q) =
      (take (length p) q = p \<and> take (length q - length p) r = drop (length p) q)"
    using False by (metis append_eq_conv_conj append_take_drop_id)
  ultimately show ?thesis using False by (simp add: startsWith_def)
qed

text \<open>The function-name families of the policy, on the normalized name.\<close>

lemma agg_date:
  "f \<noteq> [] \<Longrightarrow> trim (toLowerCase f) = ''tostartofday'' \<Longrightarrow>
     resolveAggReturnType (Some f) base = Some (TypeAst ''DateTime'' [])"
  by (cases f) (auto simp: resolveAggReturnType_def)

lemma agg_numeric:
  assumes "f \<noteq> []" "isNumericAggregate (trim (toLowerCase f))"
  shows "resolveAggReturnType (Some f) base = Some (TypeAst ''Float64'' [])"
proof -
  obtain c cs where f: "f = c # cs" using assms(1) by (cases f) auto
  have "trim (toLowerCase f) \<noteq> ''tostartofday''"
    using assms(2) by (auto simp: isNumericAggregate_def dest!: startsWithD)
  then show ?thesis using assms(2) unfolding f
    by (simp add: resolveAggReturnType_def)
qed

lemma state_not_numeric:
  assumes "isStatePreservingAggregate n"
  shows "n \<noteq> ''tostartofday'' \<and> \<not> isNumericAggregate n"
  using assms unfolding isStatePreservingAggregate_def isNumericAggregate_def
  by (auto dest!: startsWithD simp: startsWith_append)

lemma agg_state:
  assumes "f \<noteq> []" "isStatePreservingAggregate (trim (toLowerCase f))"
  shows "resolveAggReturnType (Some f) base = Some (case base of Some b \<Rightarrow> b | None \<Rightarrow> TypeAst ''Float64'' [])"
proof -
  obtain c cs where f: "f = c # cs" using assms(1) by (cases f) auto
  from state_not_numeric[OF assms(2)] assms(2) show ?thesis unfolding f
    by (simp add: resolveAggReturnType_def Let_def split: option.splits)
qed

lemma agg_other:
  assumes "f \<noteq> []" "trim (toLowerCase f) \<noteq> ''tostartofday''" "\<not> isNumericAggregate (trim (toLowerCase f))"
   "\<not> isStatePreservingAggregate (trim (toLowerCase f))"
  shows "resolveAggReturnType (Some f) base = base"
  using assms by (cases f) (auto simp: resolveAggReturnType_def Let_def)

lemma agg_absent: "resolveAggReturnType None base = base"
  by (simp add: resolveAggReturnType_def)

lemma resolveFromCTE_no_func:
  assumes "ctx_mvInfoMap ctx (col_name c) = Some info" "fs_func info = None" "mv_base_type info ctx = Inr base"
  shows "resolveFromCTE c ctx =
     Inr (Some (case base of Some b \<Rightarrow> (b, ty_name b) | None \<Rightarrow> (TypeAst ''String'' [], ''String'')))"
  using assms by (simp add: resolveFromCTE_def resolveAggReturnType_def truthy_def split: option.splits)

lemma alias_fold:
  "a \<noteq> [] \<Longrightarrow>
   foldl (\<lambda>aliasMap item.
              case si_alias item of
                Some (c # cs) \<Rightarrow>
                  aliasMap(c # cs \<mapsto> (case si_srcName item of Some s \<Rightarrow> s | None \<Rightarrow> si_name item))
              | _ \<Rightarrow> aliasMap) m0 items a =
   (case find (\<lambda>i. si_alias i = Some a) (rev items) of
      Some i \<Rightarrow> Some (case si_srcName i of Some s \<Rightarrow> s | None \<Rightarrow> si_name i)
    | None \<Rightarrow> m0 a)"
proof (induction items rule: rev_induct)
  case Nil
  then show ?case by simp
next
  case (snoc x xs)
  then show ?case
    by (cases "si_alias x") (auto split: list.splits option.splits)
qed

lemma buildAliasMap_find:
  "a \<noteq> [] \<Longrightarrow> buildAliasMap t a =
     (case find (\<lambda>i. si_alias i = Some a) (rev (select_items t)) of
        Some i \<Rightarrow> Some (case si_srcName i of Some s \<Rightarrow> s | None \<Rightarrow> si_name i)
      | None \<Rightarrow> None)"
  unfolding buildAliasMap_def by (simp add: alias_fold)

lemma resolve_from_source:
  assumes "ty_name (col_type c) = ''Unknown''" "ctx_sourceTable ctx = Some src"
    "findColumnByName src (case ctx_aliasMap ctx (col_name c) of Some (a # as) \<Rightarrow> a # as | _ \<Rightarrow> col_name c)
        = Inr (Some sc)"
  shows "resolve_column c ctx = Inr (col_type sc, col_rawType sc)"
  using assms
  by (simp add: resolve_column_def resolveUnknownType_def resolveFromSourceTable_def Let_def)

lemma findColumnByName_exact_first:
  "name \<noteq> [] \<Longrightarrow> findColumnByName src name =
      Inr (case find (\<lambda>x. col_name x = name) (tbl_columns src) of
             Some x \<Rightarrow> Some x
           | None \<Rightarrow> find (\<lambda>x. toCamelCase (col_name x) = toCamelCase name) (tbl_columns src))"
  by (simp add: findColumnByName_def split: option.splits)

lemma alnum_not_sep: "is_alnum d \<Longrightarrow> \<not> is_sep d"
  by (auto simp: is_alnum_def is_sep_def is_upper_def is_lower_def is_digit_def)

lemma camel_replace_plain: "\<forall>c \<in> set s. \<not> is_sep c \<Longrightarrow> camel_replace s = s"
  by (induction s) simp_all

lemma camel_replace_run:
  assumes "\<forall>c \<in> set u. \<not> is_sep c" "\<forall>c \<in> set v. \<not> is_sep c" "seps \<noteq> []" "\<forall>c \<in> set seps. is_sep c" "is_alnum d"
  shows "camel_replace (u @ seps @ d # v) = u @ upper_char d # v"
  using assms(1)
proof (induction u)
  case Nil
  from assms(3) obtain c cs where seps: "seps = c # cs" by (cases seps) auto
  with assms(4) have c: "is_sep c" and cs: "\<forall>x \<in> set cs. is_sep x" by auto
  from cs alnum_not_sep[OF assms(5)] have "dropWhile is_sep (cs @ d # v) = d # v"
    by (simp add: dropWhile_append2)
  with c assms(5) camel_replace_plain[OF assms(2)] seps show ?case by simp
next
  case (Cons a u)
  then show ?case by simp
qed

lemma toCamelCase_plain:
  "\<forall>c \<in> set s. \<not> is_sep c \<Longrightarrow> s = [] \<or> \<not> is_upper (hd s) \<Longrightarrow> toCamelCase s = s"
  by (cases s) (auto simp: toCamelCase_def camel_replace_plain lower_first_def)

lemma toCamelCase_run:
  assumes "\<forall>c \<in> set u. \<not> is_sep c" "\<forall>c \<in> set v. \<not> is_sep c" "seps \<noteq> []" "\<forall>c \<in> set seps. is_sep c" "is_alnum d"
    "u \<noteq> []" "\<not> is_upper (hd u)"
  shows "toCamelCase (u @ seps @ d # v) = u @ upper_char d # v"
  using assms(6,7) unfolding toCamelCase_def camel_replace_run[OF assms(1-5)]
  by (cases u) (auto simp: lower_first_def)

lemma toCamelCase_capital:
  "is_upper c \<Longrightarrow> \<forall>x \<in> set cs. \<not> is_sep x \<Longrightarrow> toCamelCase (c # cs) = lower_char c # cs"
proof -
  assume u: "is_upper c" and p: "\<forall>x \<in> set cs. \<not> is_sep x"
  from u have "\<not> is_sep c" by (auto simp: is_sep_def is_upper_def)
  with p have "camel_replace (c # cs) = c # cs" by (simp add: camel_replace_plain)
  with u show ?thesis by (simp add: toCamelCase_def lower_first_def)
qed

lemma mapSingleColumn_type:
  "resolve_column c ctx = Inr (rt, raw) \<Longrightarrow> mapSingleColumn c ctx opts = Inr m \<Longrightarrow>
     mc_typeAst m = rt \<and> mc_chType m = trim raw \<and> mapTypeAstToTs rt opts 0 = Inr (mc_tsType m)"
  by (auto simp: mapSingleColumn_def split: sum.splits)

lemma fallback_no_item:
  "ty_name (col_type c) = ''Unknown'' \<Longrightarrow> ctx_sourceTable ctx = None \<Longrightarrow> ctx_mvInfoMap ctx (col_name c) = None
   \<Longrightarrow> resolve_column c ctx = Inr (TypeAst ''String'' [], ''String'')"
  by (simp add: resolve_column_def resolveUnknownType_def resolveFromCTE_def)

lemma fallback_no_func:
  "ty_name (col_type c) = ''Unknown'' \<Longrightarrow> ctx_sourceTable ctx = None \<Longrightarrow> ctx_mvInfoMap ctx (col_name c) = Some info
   \<Longrightarrow> \<not> truthy (fs_func info) \<Longrightarrow> mv_base_type info ctx = Inr None
   \<Longrightarrow> resolve_column c ctx = Inr (TypeAst ''String'' [], ''String'')"
  by (auto simp: resolve_column_def resolveUnknownType_def resolveFromCTE_def resolveAggReturnType_def truthy_def
      split: option.splits list.splits)

lemma stays_unknown_source:
  "ty_name (col_type c) = ''Unknown'' \<Longrightarrow> ctx_sourceTable ctx = Some src \<Longrightarrow> resolveFromSourceTable c ctx = Inr None
   \<Longrightarrow> resolve_column c ctx = Inr (col_type c, col_rawType c)"
  by (simp add: resolve_column_def resolveUnknownType_def)

lemma stays_unknown_func:
  "ty_name (col_type c) = ''Unknown'' \<Longrightarrow> ctx_sourceTable ctx = None \<Longrightarrow> ctx_mvInfoMap ctx (col_name c) = Some info
   \<Longrightarrow> truthy (fs_func info) \<Longrightarrow> mv_base_type info ctx = Inr base \<Longrightarrow> resolveAggReturnType (fs_func info) base = None
   \<Longrightarrow> resolve_column c ctx = Inr (col_type c, col_rawType c)"
  by (simp add: resolve_column_def resolveUnknownType_def resolveFromCTE_def)

lemma agg_unknown_is_base:
  "resolveAggReturnType f base = Some t \<Longrightarrow> ty_name t = ''Unknown'' \<Longrightarrow> base = Some t"
  by (auto simp: resolveAggReturnType_def Let_def split: option.splits list.splits if_splits)

lemma find_Some_set: "find P xs = Some x \<Longrightarrow> x \<in> set xs"
  by (induction xs) (auto split: if_splits)

lemma findColumnByName_set: "findColumnByName src n = Inr (Some sc) \<Longrightarrow> sc \<in> set (tbl_columns src)"
  by (auto simp: findColumnByName_def split: if_splits option.splits dest: find_Some_set)

lemma unknown_only_if:
  assumes "resolve_column c ctx = Inr (t, raw)" "ty_name t = ''Unknown''"
  shows "ty_name (col_type c) = ''Unknown'' \<and>
     ((\<exists>src. ctx_sourceTable ctx = Some src \<and>
          (resolveFromSourceTable c ctx = Inr None \<or> (\<exists>sc. sc \<in> set (tbl_columns src) \<and> col_type sc = t)))
      \<or> (ctx_sourceTable ctx = None \<and>
          (\<exists>info base. ctx_mvInfoMap ctx (col_name c) = Some info \<and> mv_base_type info ctx = Inr base \<and>
             (base = Some t \<or> (truthy (fs_func info) \<and> resolveAggReturnType (fs_func info) base = None)))))"
proof -
  have u: "ty_name (col_type c) = ''Unknown''"
    using assms by (auto simp: resolve_column_def split: if_splits)
  show ?thesis
  proof (cases "ctx_sourceTable ctx")
    case (Some src)
    show ?thesis
    proof (cases "resolveFromSourceTable c ctx")
      case (Inl e)
      with assms u Some show ?thesis by (simp add: resolve_column_def resolveUnknownType_def)
    next
      case (Inr r)
      show ?thesis
      proof (cases r)
        case None
        with Inr Some u show ?thesis by simp
      next
        case (Some res)
        with Inr \<open>ctx_sourceTable ctx = Some src\<close> assms u have "res = (t, raw)"
          by (simp add: resolve_column_def resolveUnknownType_def)
        with Some Inr \<open>ctx_sourceTable ctx = Some src\<close>
        obtain sc where "sc \<in> set (tbl_columns src)" "col_type sc = t"
          by (auto simp: resolveFromSourceTable_def Let_def split: sum.splits option.splits dest: findColumnByName_set)
        with u \<open>ctx_sourceTable ctx = Some src\<close> show ?thesis by blast
      qed
    qed
  next
    case None
    from assms u None have r: "resolveFromCTE c ctx = Inr (Some (t, raw)) \<or>
        (resolveFromCTE c ctx = Inr None \<and> t = col_type c)"
      by (auto simp: resolve_column_def resolveUnknownType_def split: sum.splits option.splits)
    show ?thesis
    proof (cases "ctx_mvInfoMap ctx (col_name c)")
      case n: None
      with r assms(2) show ?thesis by (auto simp: resolveFromCTE_def)
    next
      case (Some info)
      show ?thesis
      proof (cases "mv_base_type info ctx")
        case (Inl e)
        with r Some show ?thesis by (simp add: resolveFromCTE_def)
      next
        case (Inr base)
        show ?thesis
        proof (cases "resolveAggReturnType (fs_func info) base")
          case n2: None
          with r Some Inr assms(2) have "truthy (fs_func info)"
            by (auto simp: resolveFromCTE_def split: if_splits)
          with n2 Some Inr None u show ?thesis by blast
        next
          case (Some rt)
          with r \<open>ctx_mvInfoMap ctx (col_name c) = Some info\<close> Inr have "rt = t"
            by (auto simp: resolveFromCTE_def)
          with Some assms(2) have "base = Some t" by (auto dest: agg_unknown_is_base)
          with \<open>ctx_mvInfoMap ctx (col_name c) = Some info\<close> Inr None u show ?thesis by blast
        qed
      qed
    qed
  qed
qed

lemma unknown_fails: "failOnUnknown opts \<Longrightarrow> plugins opts = [] \<Longrightarrow> ty_name t = ''Unknown'' \<Longrightarrow>
   \<exists>e. mapTypeAstToTs t opts depth = Inl e"
  by (subst mapTypeAstToTs.simps)
     (auto simp: pluginResult_def tryPluginMapping_def mapLeafType_def handleUnknownType_def Let_def
           split: option.splits)


text \<open>
  C2, as amended. The aggregate-function return-type policy, on the lower-cased and
  trimmed function name of the final projection item: \<open>tostartofday\<close> yields
  \<open>DateTime\<close>; a name starting with \<open>sum\<close>, \<open>avg\<close> or \<open>count\<close> yields \<open>Float64\<close>
  whatever the base type; a name starting with \<open>anylast\<close>, \<open>max\<close>, \<open>min\<close>, \<open>argmin\<close>
  or \<open>argmax\<close> yields exactly the resolved base type, and \<open>Float64\<close> when no base type
  is resolved; any other name (outside these families and \<open>anystate\<close>) yields the base
  type unchanged; and an absent function name yields the base type too, so that the
  column gets the resolved base type when there is one and the textual fallback
  \<open>String\<close> only when there is none.
\<close>

theorem agg_return_type_policy:
  "(f \<noteq> [] \<and> trim (toLowerCase f) = ''tostartofday'' \<longrightarrow>
      resolveAggReturnType (Some f) base = Some (TypeAst ''DateTime'' [])) \<and>
   (f \<noteq> [] \<and> (startsWith (trim (toLowerCase f)) ''sum'' \<or> startsWith (trim (toLowerCase f)) ''avg'' \<or>
               startsWith (trim (toLowerCase f)) ''count'') \<longrightarrow>
      resolveAggReturnType (Some f) base = Some (TypeAst ''Float64'' [])) \<and>
   (f \<noteq> [] \<and> (startsWith (trim (toLowerCase f)) ''anylast'' \<or> startsWith (trim (toLowerCase f)) ''max'' \<or>
               startsWith (trim (toLowerCase f)) ''min'' \<or> startsWith (trim (toLowerCase f)) ''argmin'' \<or>
               startsWith (trim (toLowerCase f)) ''argmax'') \<longrightarrow>
      resolveAggReturnType (Some f) (Some b) = Some b \<and>
      resolveAggReturnType (Some f) None = Some (TypeAst ''Float64'' [])) \<and>
   (f \<noteq> [] \<and> trim (toLowerCase f) \<noteq> ''tostartofday'' \<and> \<not> isNumericAggregate (trim (toLowerCase f)) \<and>
      \<not> isStatePreservingAggregate (trim (toLowerCase f)) \<longrightarrow>
      resolveAggReturnType (Some f) base = base) \<and>
   resolveAggReturnType None base = base \<and>
   (ctx_mvInfoMap ctx (col_name c) = Some info \<and> fs_func info = None \<and> mv_base_type info ctx = Inr base \<longrightarrow>
      resolveFromCTE c ctx =
        Inr (Some (case base of Some b \<Rightarrow> (b, ty_name b) | None \<Rightarrow> (TypeAst ''String'' [], ''String''))))"
proof (intro conjI impI)
  assume "f \<noteq> [] \<and> trim (toLowerCase f) = ''tostartofday''"
  then show "resolveAggReturnType (Some f) base = Some (TypeAst ''DateTime'' [])"
    by (simp add: agg_date)
next
  assume "f \<noteq> [] \<and> (startsWith (trim (toLowerCase f)) ''sum'' \<or> startsWith (trim (toLowerCase f)) ''avg'' \<or>
               startsWith (trim (toLowerCase f)) ''count'')"
  then show "resolveAggReturnType (Some f) base = Some (TypeAst ''Float64'' [])"
    by (intro agg_numeric) (auto simp: isNumericAggregate_def)
next
  assume a: "f \<noteq> [] \<and> (startsWith (trim (toLowerCase f)) ''anylast'' \<or> startsWith (trim (toLowerCase f)) ''max'' \<or>
               startsWith (trim (toLowerCase f)) ''min'' \<or> startsWith (trim (toLowerCase f)) ''argmin'' \<or>
               startsWith (trim (toLowerCase f)) ''argmax'')"
  then have s: "isStatePreservingAggregate (trim (toLowerCase f))"
    by (auto simp: isStatePreservingAggregate_def)
  from a s show "resolveAggReturnType (Some f) (Some b) = Some b"
    by (simp add: agg_state)
  from a s show "resolveAggReturnType (Some f) None = Some (TypeAst ''Float64'' [])"
    by (simp add: agg_state)
next
  assume "f \<noteq> [] \<and> trim (toLowerCase f) \<noteq> ''tostartofday'' \<and> \<not> isNumericAggregate (trim (toLowerCase f)) \<and>
      \<not> isStatePreservingAggregate (trim (toLowerCase f))"
  then show "resolveAggReturnType (Some f) base = base"
    by (simp add: agg_other)
next
  show "resolveAggReturnType None base = base" by (rule agg_absent)
next
  assume "ctx_mvInfoMap ctx (col_name c) = Some info \<and> fs_func info = None \<and> mv_base_type info ctx = Inr base"
  then show "resolveFromCTE c ctx =
        Inr (Some (case base of Some b \<Rightarrow> (b, ty_name b) | None \<Rightarrow> (TypeAst ''String'' [], ''String'')))"
    by (simp add: resolveFromCTE_no_func)
qed


theorem agg_return_type_policy_witness:
  "trim (toLowerCase ''toStartOfDay'') = ''tostartofday'' \<and>
   resolveAggReturnType (Some ''toStartOfDay'') None = Some (TypeAst ''DateTime'' []) \<and>
   startsWith (trim (toLowerCase ''sumStateIf'')) ''sum'' \<and>
   resolveAggReturnType (Some ''sumStateIf'') (Some (TypeAst ''Int8'' [])) = Some (TypeAst ''Float64'' []) \<and>
   startsWith (trim (toLowerCase ''maxState'')) ''max'' \<and>
   resolveAggReturnType (Some ''maxState'') (Some (TypeAst ''Decimal'' [])) = Some (TypeAst ''Decimal'' []) \<and>
   \<not> isNumericAggregate (trim (toLowerCase ''uniqExact'')) \<and>
   \<not> isStatePreservingAggregate (trim (toLowerCase ''uniqExact'')) \<and>
   resolveAggReturnType (Some ''uniqExact'') (Some (TypeAst ''UInt8'' [])) = Some (TypeAst ''UInt8'' []) \<and>
   ctx_mvInfoMap scenarioD_context (col_name (unknown_column ''amount''))
     = Some \<lparr>fs_func = None, fs_src = Some ''amount''\<rparr> \<and>
   mv_base_type \<lparr>fs_func = None, fs_src = Some ''amount''\<rparr> scenarioD_context
     = Inr (Some (TypeAst ''Float64'' [])) \<and>
   resolveFromCTE (unknown_column ''amount'') scenarioD_context
     = Inr (Some (TypeAst ''Float64'' [], ''Float64''))"
proof -
  have 1: "''toStartOfDay'' \<noteq> [] \<and> trim (toLowerCase ''toStartOfDay'') = ''tostartofday''"
    by code_simp
  have 2: "''sumStateIf'' \<noteq> [] \<and> startsWith (trim (toLowerCase ''sumStateIf'')) ''sum''"
    by code_simp
  have 3: "''maxState'' \<noteq> [] \<and> startsWith (trim (toLowerCase ''maxState'')) ''max''"
    by code_simp
  have 4: "''uniqExact'' \<noteq> [] \<and> trim (toLowerCase ''uniqExact'') \<noteq> ''tostartofday'' \<and>
           \<not> isNumericAggregate (trim (toLowerCase ''uniqExact'')) \<and>
           \<not> isStatePreservingAggregate (trim (toLowerCase ''uniqExact''))"
    by code_simp
  have 5: "ctx_mvInfoMap scenarioD_context (col_name (unknown_column ''amount''))
             = Some \<lparr>fs_func = None, fs_src = Some ''amount''\<rparr>"
    by code_simp
  have 6: "mv_base_type \<lparr>fs_func = None, fs_src = Some ''amount''\<rparr> scenarioD_context
             = Inr (Some (TypeAst ''Float64'' []))"
    by code_simp
  have 7: "fs_func \<lparr>fs_func = None, fs_src = Some ''amount''\<rparr> = None"
    by simp
  note p = agg_return_type_policy
  from p[of "''toStartOfDay''" None] 1
  have a: "resolveAggReturnType (Some ''toStartOfDay'') None = Some (TypeAst ''DateTime'' [])"
    by blast
  from p[of "''sumStateIf''" "Some (TypeAst ''Int8'' [])"] 2
  have b: "resolveAggReturnType (Some ''sumStateIf'') (Some (TypeAst ''Int8'' [])) = Some (TypeAst ''Float64'' [])"
    by blast
  from p[of "''maxState''" _ "TypeAst ''Decimal'' []"] 3
  have c: "resolveAggReturnType (Some ''maxState'') (Some (TypeAst ''Decimal'' [])) = Some (TypeAst ''Decimal'' [])"
    by blast
  from p[of "''uniqExact''" "Some (TypeAst ''UInt8'' [])"] 4
  have d: "resolveAggReturnType (Some ''uniqExact'') (Some (TypeAst ''UInt8'' [])) = Some (TypeAst ''UInt8'' [])"
    by blast
  from p[of _ "Some (TypeAst ''Float64'' [])" _ scenarioD_context "unknown_column ''amount''"
            "\<lparr>fs_func = None, fs_src = Some ''amount''\<rparr>"] 5 6 7
  have e: "resolveFromCTE (unknown_column ''amount'') scenarioD_context
             = Inr (Some (TypeAst ''Float64'' [], ''Float64''))"
    by simp
  from 1 2 3 4 5 6 a b c d e show ?thesis by blast
qed

text \<open>
  C2 as stated fails where it says that an absent function name yields the textual
  fallback whatever the base type: in Scenario D the pass-through column \<open>amount\<close> has no
  function name, its base type resolves to \<open>Float64\<close> through the named sub-query, and
  the column is typed \<open>Float64\<close>, not \<open>String\<close>. (The aggregate columns of the scenario
  resolve as the claim says.)
\<close>

theorem agg_policy_counterexample:
  "map_option si_func (find (\<lambda>i. si_name i = ''amount'') (the (tbl_mvSelect scenarioD_mv))) = Some None \<and>
   resolveAggReturnType None (Some (TypeAst ''Float64'' [])) \<noteq> Some (TypeAst ''String'' []) \<and>
   map_sum id (map (\<lambda>t. map (\<lambda>c. (mc_name c, ty_name (mc_typeAst c), mc_tsType c)) (mt_columns t)))
     (map_tables [scenarioD_swaps, scenarioD_mv] sample_options) =
   Inr [[(''amountA'', ''Float64'', ''number'')],
        [(''buyCount'', ''Float64'', ''number''),
         (''profitUsdc'', ''Float64'', ''number''),
         (''balance'', ''Float64'', ''number''),
         (''cost'', ''Decimal'', ''string''),
         (''amount'', ''Float64'', ''number'')]]"
  by code_simp

text \<open>
  C1. For a column that carries the placeholder type and whose table has a direct
  source table: the source name is the alias map's entry for the column name (the name
  itself when there is none); the alias map binds an alias to the original name of the
  last select item with that alias; the column of that name is found in the source table
  by exact match first and by \<open>toCamelCase\<close>-normalized match otherwise; and the found
  column's type (and raw type text) is adopted unchanged, which is what the mapped column
  carries. The normal form of a name without \<open>_\<close> and \<open>-\<close> that does not start with a
  capital is the name itself; a run of \<open>_\<close> and \<open>-\<close> before a letter or digit is dropped
  and that character is put in upper case; a leading capital is put in lower case. So
  \<open>userId\<close> finds the column \<open>user_id\<close> and \<open>name\<close> finds the column \<open>Name\<close>.
  In Scenario C, \<open>mv\<close>'s \<open>id\<close>, \<open>label\<close> and \<open>ts\<close> get the types of \<open>base\<close>'s
  \<open>id\<close>, \<open>name\<close> and \<open>ts\<close>; over \<open>base(user_id UInt64, Name String)\<close>, a view's
  \<open>userId\<close> and \<open>name\<close> get the types of \<open>user_id\<close> and \<open>Name\<close>.
\<close>

theorem resolve_from_source_table:
  "(ty_name (col_type c) = ''Unknown'' \<and> ctx_sourceTable ctx = Some src \<and>
    findColumnByName src (case ctx_aliasMap ctx (col_name c) of Some (a # as) \<Rightarrow> a # as | _ \<Rightarrow> col_name c)
      = Inr (Some sc) \<longrightarrow>
      resolve_column c ctx = Inr (col_type sc, col_rawType sc)) \<and>
   (alias \<noteq> [] \<longrightarrow>
      buildAliasMap t alias =
        (case find (\<lambda>i. si_alias i = Some alias) (rev (select_items t)) of
           Some i \<Rightarrow> Some (case si_srcName i of Some s \<Rightarrow> s | None \<Rightarrow> si_name i)
         | None \<Rightarrow> None)) \<and>
   (name \<noteq> [] \<longrightarrow>
      findColumnByName src name =
        Inr (case find (\<lambda>x. col_name x = name) (tbl_columns src) of
               Some x \<Rightarrow> Some x
             | None \<Rightarrow> find (\<lambda>x. toCamelCase (col_name x) = toCamelCase name) (tbl_columns src))) \<and>
   ((\<forall>x \<in> set plain. \<not> is_sep x) \<and> (plain = [] \<or> \<not> is_upper (hd plain)) \<longrightarrow> toCamelCase plain = plain) \<and>
   ((\<forall>x \<in> set u. \<not> is_sep x) \<and> (\<forall>x \<in> set v. \<not> is_sep x) \<and> seps \<noteq> [] \<and> (\<forall>x \<in> set seps. is_sep x) \<and>
    is_alnum d \<and> u \<noteq> [] \<and> \<not> is_upper (hd u) \<longrightarrow>
      toCamelCase (u @ seps @ d # v) = u @ upper_char d # v) \<and>
   (is_upper k \<and> (\<forall>x \<in> set ks. \<not> is_sep x) \<longrightarrow> toCamelCase (k # ks) = lower_char k # ks) \<and>
   (resolve_column c ctx = Inr (rt, raw) \<and> mapSingleColumn c ctx opts = Inr m \<longrightarrow>
      mc_typeAst m = rt \<and> mc_chType m = trim raw) \<and>
   map_sum id (map (\<lambda>t. (interfaceName t, map (\<lambda>c. (mc_name c, mc_typeAst c, mc_chType c)) (mt_columns t))))
     (map_tables [scenarioC_base, scenarioC_mv] sample_options) =
   Inr [(''Base'', [(''id'', TypeAst ''UInt64'' [], ''UInt64''),
                    (''name'', TypeAst ''String'' [], ''String''),
                    (''ts'', TypeAst ''DateTime'' [], ''DateTime'')]),
        (''Mv'', [(''id'', TypeAst ''UInt64'' [], ''UInt64''),
                  (''label'', TypeAst ''String'' [], ''String''),
                  (''ts'', TypeAst ''DateTime'' [], ''DateTime'')])] \<and>
   map_sum id (map (\<lambda>t. (interfaceName t, map (\<lambda>c. (mc_name c, mc_typeAst c, mc_chType c)) (mt_columns t))))
     (map_tables [casing_base, casing_mv] (sample_options\<lparr>camelCase := False\<rparr>)) =
   Inr [(''Base'', [(''user_id'', TypeAst ''UInt64'' [], ''UInt64''),
                    (''Name'', TypeAst ''String'' [], ''String'')]),
        (''Mv'', [(''userId'', TypeAst ''UInt64'' [], ''UInt64''),
                  (''name'', TypeAst ''String'' [], ''String'')])]"
proof (intro conjI impI)
  assume "ty_name (col_type c) = ''Unknown'' \<and> ctx_sourceTable ctx = Some src \<and>
    findColumnByName src (case ctx_aliasMap ctx (col_name c) of Some (a # as) \<Rightarrow> a # as | _ \<Rightarrow> col_name c)
      = Inr (Some sc)"
  then show "resolve_column c ctx = Inr (col_type sc, col_rawType sc)"
    by (simp add: resolve_from_source)
next
  assume "alias \<noteq> []"
  then show "buildAliasMap t alias =
        (case find (\<lambda>i. si_alias i = Some alias) (rev (select_items t)) of
           Some i \<Rightarrow> Some (case si_srcName i of Some s \<Rightarrow> s | None \<Rightarrow> si_name i)
         | None \<Rightarrow> None)"
    by (rule buildAliasMap_find)
next
  assume "name \<noteq> []"
  then show "findColumnByName src name =
        Inr (case find (\<lambda>x. col_name x = name) (tbl_columns src) of
               Some x \<Rightarrow> Some x
             | None \<Rightarrow> find (\<lambda>x. toCamelCase (col_name x) = toCamelCase name) (tbl_columns src))"
    by (rule findColumnByName_exact_first)
next
  assume "(\<forall>x \<in> set plain. \<not> is_sep x) \<and> (plain = [] \<or> \<not> is_upper (hd plain))"
  then show "toCamelCase plain = plain"
    by (simp add: toCamelCase_plain)
next
  assume "(\<forall>x \<in> set u. \<not> is_sep x) \<and> (\<forall>x \<in> set v. \<not> is_sep x) \<and> seps \<noteq> [] \<and> (\<forall>x \<in> set seps. is_sep x) \<and>
    is_alnum d \<and> u \<noteq> [] \<and> \<not> is_upper (hd u)"
  then show "toCamelCase (u @ seps @ d # v) = u @ upper_char d # v"
    using toCamelCase_run[of u v seps d] by blast
next
  assume "is_upper k \<and> (\<forall>x \<in> set ks. \<not> is_sep x)"
  then show "toCamelCase (k # ks) = lower_char k # ks"
    by (simp add: toCamelCase_capital)
next
  assume a: "resolve_column c ctx = Inr (rt, raw) \<and> mapSingleColumn c ctx opts = Inr m"
  then show "mc_typeAst m = rt" using mapSingleColumn_type[of c ctx rt raw opts m] by simp
  from a show "mc_chType m = trim raw" using mapSingleColumn_type[of c ctx rt raw opts m] by simp
next
  show "map_sum id (map (\<lambda>t. (interfaceName t, map (\<lambda>c. (mc_name c, mc_typeAst c, mc_chType c)) (mt_columns t))))
     (map_tables [scenarioC_base, scenarioC_mv] sample_options) =
   Inr [(''Base'', [(''id'', TypeAst ''UInt64'' [], ''UInt64''),
                    (''name'', TypeAst ''String'' [], ''String''),
                    (''ts'', TypeAst ''DateTime'' [], ''DateTime'')]),
        (''Mv'', [(''id'', TypeAst ''UInt64'' [], ''UInt64''),
                  (''label'', TypeAst ''String'' [], ''String''),
                  (''ts'', TypeAst ''DateTime'' [], ''DateTime'')])]"
    by code_simp
next
  show "map_sum id (map (\<lambda>t. (interfaceName t, map (\<lambda>c. (mc_name c, mc_typeAst c, mc_chType c)) (mt_columns t))))
     (map_tables [casing_base, casing_mv] (sample_options\<lparr>camelCase := False\<rparr>)) =
   Inr [(''Base'', [(''user_id'', TypeAst ''UInt64'' [], ''UInt64''),
                    (''Name'', TypeAst ''String'' [], ''String'')]),
        (''Mv'', [(''userId'', TypeAst ''UInt64'' [], ''UInt64''),
                  (''name'', TypeAst ''String'' [], ''String'')])]"
    by code_simp
qed

theorem resolve_from_source_table_witness:
  "ty_name (col_type (unknown_column ''label'')) = ''Unknown'' \<and>
   ctx_sourceTable scenarioC_context = Some scenarioC_base \<and>
   ctx_aliasMap scenarioC_context ''label'' = Some ''name'' \<and>
   findColumnByName scenarioC_base ''name'' = Inr (Some (tbl_columns scenarioC_base ! 1)) \<and>
   resolve_column (unknown_column ''label'') scenarioC_context = Inr (TypeAst ''String'' [], ''String'') \<and>
   ty_name (col_type (unknown_column ''userId'')) = ''Unknown'' \<and>
   ctx_sourceTable casing_context = Some casing_base \<and>
   ctx_aliasMap casing_context ''userId'' = None \<and>
   find (\<lambda>x. col_name x = ''userId'') (tbl_columns casing_base) = None \<and>
   toCamelCase ''userId'' = ''userId'' \<and>
   toCamelCase ''user_id'' = ''userId'' \<and>
   toCamelCase ''Name'' = ''name'' \<and>
   findColumnByName casing_base ''userId'' = Inr (Some (tbl_columns casing_base ! 0)) \<and>
   col_name (tbl_columns casing_base ! 0) = ''user_id'' \<and>
   resolve_column (unknown_column ''userId'') casing_context = Inr (TypeAst ''UInt64'' [], ''UInt64'')"
proof -
  note r = resolve_from_source_table
  have 1: "ty_name (col_type (unknown_column ''label'')) = ''Unknown''"
          "ty_name (col_type (unknown_column ''userId'')) = ''Unknown''"
    by code_simp+
  have 2: "ctx_sourceTable scenarioC_context = Some scenarioC_base"
    by (simp add: scenarioC_context_def)
  have 3: "ctx_aliasMap scenarioC_context ''label'' = Some ''name''"
    by code_simp
  have 4: "findColumnByName scenarioC_base ''name'' = Inr (Some (tbl_columns scenarioC_base ! 1))"
    by code_simp
  have 5: "col_name (unknown_column ''label'') = ''label''" "col_name (unknown_column ''userId'') = ''userId''"
    by (simp_all add: unknown_column_def)
  have 6: "col_type (tbl_columns scenarioC_base ! 1) = TypeAst ''String'' [] \<and>
           col_rawType (tbl_columns scenarioC_base ! 1) = ''String''"
    by code_simp
  from r[where c = "unknown_column ''label''" and ctx = scenarioC_context and src = scenarioC_base
           and sc = "tbl_columns scenarioC_base ! 1"] 1 2 3 4 5 6
  have label: "resolve_column (unknown_column ''label'') scenarioC_context = Inr (TypeAst ''String'' [], ''String'')"
    by simp
  have 7: "ctx_sourceTable casing_context = Some casing_base"
    by (simp add: casing_context_def)
  have 8: "ctx_aliasMap casing_context ''userId'' = None"
    by code_simp
  have 9: "find (\<lambda>x. col_name x = ''userId'') (tbl_columns casing_base) = None"
    by code_simp
  have 10: "(\<forall>x \<in> set ''userId''. \<not> is_sep x) \<and> (''userId'' = [] \<or> \<not> is_upper (hd ''userId''))"
    by code_simp
  have 11: "(\<forall>x \<in> set ''user''. \<not> is_sep x) \<and> (\<forall>x \<in> set ''d''. \<not> is_sep x) \<and> ''_'' \<noteq> [] \<and>
            (\<forall>x \<in> set ''_''. is_sep x) \<and> is_alnum CHR ''i'' \<and> ''user'' \<noteq> [] \<and> \<not> is_upper (hd ''user'')"
    by code_simp
  have 12: "is_upper CHR ''N'' \<and> (\<forall>x \<in> set ''ame''. \<not> is_sep x)"
    by code_simp
  have 13: "upper_char CHR ''i'' = CHR ''I''" "lower_char CHR ''N'' = CHR ''n''"
    by code_simp+
  from r[where plain = "''userId''"] 10 have n1: "toCamelCase ''userId'' = ''userId''"
    by blast
  from r[where u = "''user''" and seps = "''_''" and d = "CHR ''i''" and v = "''d''"] 11
  have "toCamelCase (''user'' @ ''_'' @ CHR ''i'' # ''d'') = ''user'' @ upper_char CHR ''i'' # ''d''"
    by blast
  with 13 have n2: "toCamelCase ''user_id'' = ''userId''"
    by simp
  from r[where k = "CHR ''N''" and ks = "''ame''"] 12
  have "toCamelCase (CHR ''N'' # ''ame'') = lower_char CHR ''N'' # ''ame''"
    by blast
  with 13 have n3: "toCamelCase ''Name'' = ''name''"
    by simp
  have 14: "find (\<lambda>x. toCamelCase (col_name x) = ''userId'') (tbl_columns casing_base)
              = Some (tbl_columns casing_base ! 0)"
    by code_simp
  from r[where src = casing_base and name = "''userId''"] 9 n1 14
  have f: "findColumnByName casing_base ''userId'' = Inr (Some (tbl_columns casing_base ! 0))"
    by simp
  have 15: "col_name (tbl_columns casing_base ! 0) = ''user_id''"
           "col_type (tbl_columns casing_base ! 0) = TypeAst ''UInt64'' []"
           "col_rawType (tbl_columns casing_base ! 0) = ''UInt64''"
    by code_simp+
  from r[where c = "unknown_column ''userId''" and ctx = casing_context and src = casing_base
           and sc = "tbl_columns casing_base ! 0"] 1 7 8 f 5 15
  have user: "resolve_column (unknown_column ''userId'') casing_context = Inr (TypeAst ''UInt64'' [], ''UInt64'')"
    by simp
  from 1 2 3 4 label 7 8 9 n1 n2 n3 f 15 user show ?thesis by blast
qed

text \<open>
  C3, as amended. A placeholder column ends with the textual fallback \<open>String\<close> on the
  named-sub-query path when it has no recorded projection item, or when its item has no
  function name and no base type is resolved. It keeps the placeholder \<open>Unknown\<close> when
  its table has a direct source table in which the column is not found, and on the
  named-sub-query path when its item has a function name for which no type results.
  A resolved type named \<open>Unknown\<close> arises in no other way, except by adopting an
  \<open>Unknown\<close>-typed source column or base type. When \<open>failOnUnknown\<close> is set and no
  plugin is configured, no mapped column carries \<open>Unknown\<close>: the mapping of such a
  column raises an error instead.
\<close>

theorem unresolved_placeholder_outcome:
  "(ty_name (col_type c) = ''Unknown'' \<and> ctx_sourceTable ctx = None \<and> ctx_mvInfoMap ctx (col_name c) = None \<longrightarrow>
      resolve_column c ctx = Inr (TypeAst ''String'' [], ''String'')) \<and>
   (ty_name (col_type c) = ''Unknown'' \<and> ctx_sourceTable ctx = None \<and> ctx_mvInfoMap ctx (col_name c) = Some info \<and>
    \<not> truthy (fs_func info) \<and> mv_base_type info ctx = Inr None \<longrightarrow>
      resolve_column c ctx = Inr (TypeAst ''String'' [], ''String'')) \<and>
   (ty_name (col_type c) = ''Unknown'' \<and> ctx_sourceTable ctx = Some src \<and> resolveFromSourceTable c ctx = Inr None \<longrightarrow>
      resolve_column c ctx = Inr (col_type c, col_rawType c)) \<and>
   (ty_name (col_type c) = ''Unknown'' \<and> ctx_sourceTable ctx = None \<and> ctx_mvInfoMap ctx (col_name c) = Some info \<and>
    truthy (fs_func info) \<and> mv_base_type info ctx = Inr base \<and> resolveAggReturnType (fs_func info) base = None \<longrightarrow>
      resolve_column c ctx = Inr (col_type c, col_rawType c)) \<and>
   (resolve_column c ctx = Inr (t, raw) \<and> ty_name t = ''Unknown'' \<longrightarrow>
      ty_name (col_type c) = ''Unknown'' \<and>
      ((\<exists>src. ctx_sourceTable ctx = Some src \<and>
          (resolveFromSourceTable c ctx = Inr None \<or> (\<exists>sc. sc \<in> set (tbl_columns src) \<and> col_type sc = t)))
       \<or> (ctx_sourceTable ctx = None \<and>
          (\<exists>info base. ctx_mvInfoMap ctx (col_name c) = Some info \<and> mv_base_type info ctx = Inr base \<and>
             (base = Some t \<or> (truthy (fs_func info) \<and> resolveAggReturnType (fs_func info) base = None)))))) \<and>
   (failOnUnknown opts \<and> plugins opts = [] \<and> mapSingleColumn c ctx opts = Inr m \<longrightarrow>
      ty_name (mc_typeAst m) \<noteq> ''Unknown'')"
proof (intro conjI impI)
  assume "ty_name (col_type c) = ''Unknown'' \<and> ctx_sourceTable ctx = None \<and> ctx_mvInfoMap ctx (col_name c) = None"
  then show "resolve_column c ctx = Inr (TypeAst ''String'' [], ''String'')"
    by (simp add: fallback_no_item)
next
  assume "ty_name (col_type c) = ''Unknown'' \<and> ctx_sourceTable ctx = None \<and> ctx_mvInfoMap ctx (col_name c) = Some info \<and>
    \<not> truthy (fs_func info) \<and> mv_base_type info ctx = Inr None"
  then show "resolve_column c ctx = Inr (TypeAst ''String'' [], ''String'')"
    by (simp add: fallback_no_func)
next
  assume "ty_name (col_type c) = ''Unknown'' \<and> ctx_sourceTable ctx = Some src \<and> resolveFromSourceTable c ctx = Inr None"
  then show "resolve_column c ctx = Inr (col_type c, col_rawType c)"
    by (simp add: stays_unknown_source)
next
  assume "ty_name (col_type c) = ''Unknown'' \<and> ctx_sourceTable ctx = None \<and> ctx_mvInfoMap ctx (col_name c) = Some info \<and>
    truthy (fs_func info) \<and> mv_base_type info ctx = Inr base \<and> resolveAggReturnType (fs_func info) base = None"
  then show "resolve_column c ctx = Inr (col_type c, col_rawType c)"
    by (simp add: stays_unknown_func)
next
  assume a: "resolve_column c ctx = Inr (t, raw) \<and> ty_name t = ''Unknown''"
  then show "ty_name (col_type c) = ''Unknown''"
    using unknown_only_if[of c ctx t raw] by simp
  from a show "(\<exists>src. ctx_sourceTable ctx = Some src \<and>
          (resolveFromSourceTable c ctx = Inr None \<or> (\<exists>sc. sc \<in> set (tbl_columns src) \<and> col_type sc = t)))
       \<or> (ctx_sourceTable ctx = None \<and>
          (\<exists>info base. ctx_mvInfoMap ctx (col_name c) = Some info \<and> mv_base_type info ctx = Inr base \<and>
             (base = Some t \<or> (truthy (fs_func info) \<and> resolveAggReturnType (fs_func info) base = None))))"
    using unknown_only_if[of c ctx t raw] by simp
next
  assume a: "failOnUnknown opts \<and> plugins opts = [] \<and> mapSingleColumn c ctx opts = Inr m"
  show "ty_name (mc_typeAst m) \<noteq> ''Unknown''"
  proof
    assume u: "ty_name (mc_typeAst m) = ''Unknown''"
    from a obtain rt raw where r: "resolve_column c ctx = Inr (rt, raw)"
      by (auto simp: mapSingleColumn_def split: sum.splits)
    with a have "mc_typeAst m = rt" "mapTypeAstToTs rt opts 0 = Inr (mc_tsType m)"
      using mapSingleColumn_type[of c ctx rt raw opts m] by simp_all
    with u a unknown_fails[of opts rt 0] show False by auto
  qed
qed

theorem unresolved_placeholder_outcome_witness:
  "ty_name (col_type (unknown_column ''total'')) = ''Unknown'' \<and>
   ctx_sourceTable missing_column_context = Some scenarioC_base \<and>
   resolveFromSourceTable (unknown_column ''total'') missing_column_context = Inr None \<and>
   resolve_column (unknown_column ''total'') missing_column_context = Inr (TypeAst ''Unknown'' [], ''Unknown'') \<and>
   ctx_sourceTable scenarioD_context = None \<and>
   ctx_mvInfoMap scenarioD_context (col_name (unknown_column ''other'')) = None \<and>
   resolve_column (unknown_column ''other'') scenarioD_context = Inr (TypeAst ''String'' [], ''String'')"
proof -
  have 1: "ty_name (col_type (unknown_column ''total'')) = ''Unknown''"
          "ty_name (col_type (unknown_column ''other'')) = ''Unknown''"
    by code_simp+
  have 2: "ctx_sourceTable missing_column_context = Some scenarioC_base"
    by (simp add: missing_column_context_def)
  have 3: "resolveFromSourceTable (unknown_column ''total'') missing_column_context = Inr None"
    by code_simp
  have 4: "ctx_sourceTable scenarioD_context = None"
    by (simp add: scenarioD_context_def)
  have 5: "ctx_mvInfoMap scenarioD_context (col_name (unknown_column ''other'')) = None"
    by code_simp
  have 6: "col_type (unknown_column ''total'') = TypeAst ''Unknown'' [] \<and>
           col_rawType (unknown_column ''total'') = ''Unknown''"
    by (simp add: unknown_column_def)
  note p = unresolved_placeholder_outcome
  from p[of "unknown_column ''total''" missing_column_context _ scenarioC_base] 1 2 3 6
  have a: "resolve_column (unknown_column ''total'') missing_column_context = Inr (TypeAst ''Unknown'' [], ''Unknown'')"
    by simp
  from p[of "unknown_column ''other''" scenarioD_context] 1 4 5
  have b: "resolve_column (unknown_column ''other'') scenarioD_context = Inr (TypeAst ''String'' [], ''String'')"
    by simp
  from 1 2 3 4 5 a b show ?thesis by blast
qed

text \<open>
  C3 as stated fails: the materialized view \<open>mv2\<close> selects \<open>total\<close> from \<open>base\<close>, which
  has no such column; resolution completes, and the output column \<open>total\<close> still has
  the resolved type \<open>Unknown\<close> (rendered as \<open>unknown\<close>), not the textual fallback.
\<close>

theorem never_unknown_counterexample:
  "map_sum id (map (\<lambda>t. (interfaceName t, map (\<lambda>c. (mc_name c, ty_name (mc_typeAst c), mc_tsType c)) (mt_columns t))))
     (map_tables [scenarioC_base, missing_column_mv] sample_options) =
   Inr [(''Base'', [(''id'', ''UInt64'', ''bigint''),
                    (''name'', ''String'', ''string''),
                    (''ts'', ''DateTime'', ''string'')]),
        (''Mv2'', [(''total'', ''Unknown'', ''unknown'')])]"
  by code_simp

section \<open>Lemmas on the renderers\<close>

declare jsonSchemaForType.simps [simp del]













lemma startsWith_append_self [simp]: "startsWith (p @ x) p"
  by (simp add: startsWith_def)























lemma emit_required:
  "obj_get (emitJsonSchema (table # others)) ''required'' =
     Some (JArray (map (\<lambda>c. JString (mc_name c)) (mt_columns table)))"
  by (simp add: emitJsonSchema_def obj_get_def Let_def obj_set_def)















text \<open>
  C7, as amended. The JSON Schema renderer emits one root document, for the first table
  of its input only (the empty object when there is none): the tables after the first do
  not change the output. That document is titled with the first table's interface name
  and declares a \<open>required\<close> list of exactly that table's column names, in declaration
  order.
\<close>

theorem json_schema_first_table:
  "emitJsonSchema [] = JObject [] \<and>
   emitJsonSchema (table # others) = emitJsonSchema [table] \<and>
   obj_get (emitJsonSchema (table # others)) ''title'' = Some (JString (interfaceName table)) \<and>
   obj_get (emitJsonSchema (table # others)) ''required'' =
     Some (JArray (map (\<lambda>c. JString (mc_name c)) (mt_columns table)))"
  by (simp add: emitJsonSchema_def obj_get_def Let_def obj_set_def)


text \<open>
  C7 as stated fails for more than one table: for the two mapped tables of Scenario C
  the output is the single document of \<open>Base\<close>; nothing is emitted for \<open>Mv\<close>, whose
  column names differ.
\<close>

theorem json_schema_per_table_counterexample:
  "map interfaceName scenarioC_mapped = [''Base'', ''Mv''] \<and>
   map (\<lambda>t. map mc_name (mt_columns t)) scenarioC_mapped = [[''id'', ''name'', ''ts''], [''id'', ''label'', ''ts'']] \<and>
   obj_get (emitJsonSchema scenarioC_mapped) ''title'' = Some (JString ''Base'') \<and>
   obj_get (emitJsonSchema scenarioC_mapped) ''required'' =
     Some (JArray [JString ''id'', JString ''name'', JString ''ts'']) \<and>
   emitJsonSchema scenarioC_mapped = emitJsonSchema [hd scenarioC_mapped]"
  by code_simp

section \<open>Lemmas on the statement filter\<close>

lemma split_semi_not_Nil: "split_semi s \<noteq> []"
  by (induction s) (auto split: list.splits)

lemma split_semi_no_semi: "p \<in> set (split_semi s) \<Longrightarrow> CHR '';'' \<notin> set p"
proof (induction s arbitrary: p)
  case Nil
  then show ?case by simp
next
  case (Cons c cs)
  show ?case
  proof (cases "c = CHR '';''")
    case True
    with Cons show ?thesis by auto
  next
    case False
    obtain q qs where q: "split_semi cs = q # qs"
      using split_semi_not_Nil[of cs] by (cases "split_semi cs") auto
    with Cons.prems False have "p = c # q \<or> p \<in> set qs" by auto
    with Cons.IH[of q] Cons.IH[of p] q False show ?thesis by auto
  qed
qed

lemma split_semi_append:
  "CHR '';'' \<notin> set k \<Longrightarrow> split_semi (k @ CHR '';'' # r) = k # split_semi r"
  by (induction k) auto

lemma split_semi_space:
  "c \<noteq> CHR '';'' \<Longrightarrow> split_semi (c # r) = (c # hd (split_semi r)) # tl (split_semi r)"
  using split_semi_not_Nil[of r] by (cases "split_semi r") auto

lemma trim_space_Cons: "is_js_space c \<Longrightarrow> trim (c # s) = trim s"
  by (simp add: trim_def)

lemma trim_Nil [simp]: "trim [] = []"
  by (simp add: trim_def)

lemma set_trim: "x \<in> set (trim s) \<Longrightarrow> x \<in> set s"
  unfolding trim_def by (auto dest!: set_dropWhileD)

lemma trim_ends:
  assumes "trim s \<noteq> []"
  shows "\<not> is_js_space (hd (trim s)) \<and> \<not> is_js_space (last (trim s))"
proof -
  let ?u = "dropWhile is_js_space s"
  let ?v = "dropWhile is_js_space (rev ?u)"
  from assms have v: "?v \<noteq> []" by (simp add: trim_def)
  have u: "?u \<noteq> []"
  proof
    assume "?u = []"
    with v show False by simp
  qed
  have hv: "\<not> is_js_space (hd ?v)" using v by (rule hd_dropWhile)
  have hu: "\<not> is_js_space (hd ?u)" using u by (rule hd_dropWhile)
  have "last (trim s) = hd ?v" using v by (simp add: trim_def last_rev)
  moreover have "hd (trim s) = last ?v" using v by (simp add: trim_def hd_rev)
  moreover have "last ?v = last (rev ?u)"
  proof -
    obtain ws where "rev ?u = ws @ ?v"
      by (metis takeWhile_dropWhile_id)
    with v show ?thesis by (metis last_appendR)
  qed
  moreover have "last (rev ?u) = hd ?u" using u by (simp add: last_rev)
  ultimately show ?thesis using hv hu by simp
qed

lemma trim_clean: "clean k \<Longrightarrow> trim k = k"
proof -
  assume c: "clean k"
  then have 1: "dropWhile is_js_space k = k"
    by (cases k) (auto simp: clean_def)
  from c have "rev k \<noteq> []" "\<not> is_js_space (hd (rev k))"
    by (auto simp: clean_def hd_rev)
  then have 2: "dropWhile is_js_space (rev k) = rev k"
    by (cases "rev k") auto
  show ?thesis by (simp add: trim_def 1 2)
qed

lemma statement_parts_clean: "k \<in> set (statement_parts input) \<Longrightarrow> clean k"
proof -
  assume "k \<in> set (statement_parts input)"
  then obtain p where p: "p \<in> set (split_semi input)" "k = trim p" "k \<noteq> []"
    by (auto simp: statement_parts_def)
  from split_semi_no_semi[OF p(1)] set_trim[of "CHR '';''" p] p(2) have "CHR '';'' \<notin> set k" by auto
  with trim_ends[of p] p(2,3) show ?thesis by (simp add: clean_def)
qed

lemma statement_parts_Nil [simp]: "statement_parts [] = []"
  by (simp add: statement_parts_def)

lemma statement_parts_semi [simp]: "statement_parts '';'' = []"
  by (simp add: statement_parts_def)

lemma statement_parts_Cons:
  "clean k \<Longrightarrow> statement_parts (k @ CHR '';'' # r) = k # statement_parts r"
  by (simp add: statement_parts_def split_semi_append clean_def trim_clean)

lemma statement_parts_newline:
  "statement_parts (CHR 0x0A # r) = statement_parts r"
proof -
  have sp: "is_js_space (CHR 0x0A)" by (simp add: is_js_space_def)
  obtain p ps where ps: "split_semi r = p # ps"
    using split_semi_not_Nil[of r] by (cases "split_semi r") auto
  then have "split_semi (CHR 0x0A # r) = (CHR 0x0A # p) # ps"
    by simp
  then show ?thesis
    unfolding statement_parts_def ps
    by (simp add: trim_space_Cons[OF sp])
qed

lemma statement_parts_join:
  assumes "\<And>k. k \<in> set ks \<Longrightarrow> clean k" "ks \<noteq> []"
  shows "statement_parts (join [CHR '';'', CHR 0x0A] ks @ '';'') = ks"
  using assms
proof (induction ks rule: induct_list012)
  case 1
  then show ?case by simp
next
  case (2 x)
  then show ?case
    using statement_parts_Cons[of x "[]"] by simp
next
  case (3 x y ys)
  have "statement_parts (join [CHR '';'', CHR 0x0A] (y # ys) @ '';'') = y # ys"
    using 3 by simp
  moreover have "clean x" using 3(3) by simp
  ultimately show ?case
    using statement_parts_Cons[of x "CHR 0x0A # join [CHR '';'', CHR 0x0A] (y # ys) @ '';''"]
    by (simp add: statement_parts_newline)
qed

lemma statement_parts_filterStatements:
  "statement_parts (filterStatements input) = filter keepStatement (statement_parts input)"
proof (cases "filter keepStatement (statement_parts input) = []")
  case True
  then show ?thesis by (simp add: filterStatements_def join_kept_def)
next
  case False
  have "\<And>k. k \<in> set (filter keepStatement (statement_parts input)) \<Longrightarrow> clean k"
    using statement_parts_clean by auto
  from statement_parts_join[OF this False] False show ?thesis
    by (simp add: filterStatements_def join_kept_def)
qed

lemma filterStatements_idem: "filterStatements (filterStatements input) = filterStatements input"
  unfolding filterStatements_def[of "filterStatements input"] statement_parts_filterStatements
  by (simp add: filterStatements_def)

text \<open>
  C8. The statement filter is idempotent: filtering its own output gives the same text,
  hence the same list of statements, and \<open>parse\<close>, which filters and splits its input
  itself, returns the same tables for the text filtered once, filtered twice, or not at
  all.
\<close>

theorem filter_idempotent:
  "filterStatements (filterStatements input) = filterStatements input \<and>
   splitStatements (filterStatements (filterStatements input)) = splitStatements (filterStatements input) \<and>
   parse (filterStatements (filterStatements input)) = parse (filterStatements input) \<and>
   parse (filterStatements input) = parse input"
  by (simp add: filterStatements_idem parse_def)

section \<open>Lemmas on the recovery from failed statements\<close>







section \<open>Lemmas on the tokenizer\<close>

lemma first_match_None:
  "first_match ps prev s = None \<Longrightarrow> (tt, m) \<in> set ps \<Longrightarrow> m prev s = None"
  by (induction ps) (auto split: option.splits)

lemma match_at_None:
  assumes "match_at prev (c # cs) = (None, n)"
  shows "is_js_space c \<and> \<not> is_lexer_space c"
proof -
  from assms have none: "first_match ddlLexer prev (c # cs) = None"
    by (auto simp: match_at_def split: option.splits)
  have "(TkWhiteSpace, match_while is_lexer_space) \<in> set ddlLexer"
    "(TkUnknown, match_Unknown) \<in> set ddlLexer"
    by (simp_all add: ddlLexer_def)
  with none have "match_while is_lexer_space prev (c # cs) = None"
    "match_Unknown prev (c # cs) = None"
    by (auto dest: first_match_None)
  then show ?thesis
    by (auto simp: match_while_def match_Unknown_def Let_def split: if_splits)
qed

lemma record_match_errors:
  "lex_errors (record_match offset (Some tt) img r) = lex_errors r"
  by (cases r) simp

lemma tokenize_from_no_errors:
  "(\<And>c. c \<in> set s \<Longrightarrow> is_js_space c \<Longrightarrow> is_lexer_space c) \<Longrightarrow>
   lex_errors (tokenize_from offset prev s) = []"
proof (induct offset prev s rule: tokenize_from.induct)
  case (1 offset prev)
  show ?case by simp
next
  case (2 offset prev c cs)
  obtain kind n where m: "match_at prev (c # cs) = (kind, n)"
    by (cases "match_at prev (c # cs)") auto
  have "kind \<noteq> None"
  proof
    assume "kind = None"
    with m match_at_None[of prev c cs n] 2(2)[of c] show False by simp
  qed
  then obtain tt where kind: "kind = Some tt" by auto
  have "\<And>d. d \<in> set (drop n (c # cs)) \<Longrightarrow> is_js_space d \<Longrightarrow> is_lexer_space d"
    using 2(2) by (meson in_set_dropD)
  from 2(1)[OF m[symmetric] this] m kind show ?case
    by (simp add: record_match_errors)
qed

text \<open>
  C9 fails on the code. The white-space pattern is \<open>[ \t\n\r\f]+\<close> and the catch-all
  is \<open>[^\s]\<close>, so a white-space character outside the first class, such as the vertical
  tab, matches no pattern: the lexer records an error at offset 17 of
  \<open>CREATE TABLE t (a\vInt8)\<close>, the parser throws \<open>Lexing failed\<close>, and \<open>parse\<close> drops
  the statement, which with an ordinary space gives the table.
\<close>

theorem lexing_failed_reachable:
  "lex_errors (tokenize vertical_tab_ddl) = [17] \<and>
   parser_parse vertical_tab_ddl = Inl LexingFailed \<and>
   parse vertical_tab_ddl = Inr [] \<and>
   parse ''CREATE TABLE t (a Int8)''
     = Inr [\<lparr>tbl_name = ''t'',
              tbl_columns = [\<lparr>col_name = ''a'', col_type = TypeAst ''Int8'' [],
                              col_rawType = ''Int8'', col_comment = None, col_default = None\<rparr>],
              tbl_partitionBy = None, tbl_orderBy = None,
              tbl_mvFrom = None, tbl_mvSelect = None, tbl_mvCte = None\<rparr>]"
proof -
  have 1: "lex_errors (tokenize vertical_tab_ddl) = [17]"
    by code_simp
  then have 2: "parser_parse vertical_tab_ddl = Inl LexingFailed"
    by (simp add: parser_parse_def parse_lexed_def)
  have 3: "parse vertical_tab_ddl = Inr []"
    by code_simp
  have 4: "parse ''CREATE TABLE t (a Int8)''
     = Inr [\<lparr>tbl_name = ''t'',
              tbl_columns = [\<lparr>col_name = ''a'', col_type = TypeAst ''Int8'' [],
                              col_rawType = ''Int8'', col_comment = None, col_default = None\<rparr>],
              tbl_partitionBy = None, tbl_orderBy = None,
              tbl_mvFrom = None, tbl_mvSelect = None, tbl_mvCte = None\<rparr>]"
    by code_simp
  from 1 2 3 4 show ?thesis by simp
qed

section \<open>Lemmas on qualified names\<close>


lemma peekToken_advance: "peekToken (advance st) k = peekToken st (Suc k)"
  by (simp add: peekToken_def advance_def)



lemma parseQualifiedName_single:
  assumes "peekToken st 0 = Some a" "tokenType a = TkIdentifier"
    and "map_option tokenType (peekToken st 1) \<noteq> Some TkDot"
  shows "parseQualifiedName st = (Inr (tok_image a), advance st)"
proof -
  have 1: "consumeToken TkIdentifier ''identifier'' st = (Inr a, advance st)"
    using assms(1,2) by (rule consumeToken_peek)
  have 2: "tryMatchP TkDot (advance st) = (Inr False, advance st)"
    using assms(3) by (auto simp: tryMatchP_def tryMatch_def peekToken_advance split: option.splits)
  show ?thesis
    by (simp add: parseQualifiedName_def bindP_def 1 2 ifP_def returnP_def)
qed












end
